theory Spec2Isabelle
  imports Complex_Main "HOL-Library.Char_ord" "HOL-Library.List_Lexorder"
begin

section \<open>Values shared by the embedding\<close>

text \<open>
  The analyzer is Python. Its numbers are modelled exactly: a Python \<open>int\<close> and a Python
  \<open>float\<close> are both a rational here, so sums and products carry no binary rounding
  (NaN and the infinities have no counterpart). Every exception the modelled code can
  raise is a value of \<open>error\<close>, returned on the left of a sum.
\<close>

datatype error =
    AttributeError | KeyError | TypeError | IndexError | ValueError | ZeroDivisionError
  | SystemExit

text \<open>\<open>int(k)\<close> on a float truncates towards zero.\<close>

definition py_int :: "rat \<Rightarrow> int" where
  "py_int x = (if 0 \<le> x then \<lfloor>x\<rfloor> else \<lceil>x\<rceil>)"

text \<open>
  \<open>data[i]\<close> on a list: an index below zero counts from the end, an index outside
  \<open>[-len, len)\<close> raises IndexError.
\<close>

definition py_getitem :: "'a list \<Rightarrow> int \<Rightarrow> error + 'a" where
  "py_getitem xs i =
     (if 0 \<le> i \<and> i < int (length xs) then Inr (xs ! nat i)
      else if i < 0 \<and> - int (length xs) \<le> i then Inr (xs ! nat (int (length xs) + i))
      else Inl IndexError)"

text \<open>
  \<open>round(x, d)\<close>: the nearest multiple of \<open>10^-d\<close>, a tie going to the even one
  (on the exact value; Python rounds the binary float, which differs only where the
  float is not the decimal it prints as).
\<close>

definition round_half_even :: "rat \<Rightarrow> int" where
  "round_half_even x =
     (let f = \<lfloor>x\<rfloor>; d = x - of_int f
      in if d < 1 / 2 then f else if 1 / 2 < d then f + 1
         else if even f then f else f + 1)"

definition py_round :: "rat \<Rightarrow> nat \<Rightarrow> rat" where
  "py_round x d = of_int (round_half_even (x * 10 ^ d)) / 10 ^ d"

text \<open>\<open>xs[-k:]\<close>: the last \<open>k\<close> elements, the whole list when it is shorter.\<close>

definition last_n :: "nat \<Rightarrow> 'a list \<Rightarrow> 'a list" where
  "last_n k xs = drop (length xs - k) xs"

section \<open>CostModel: the pricing table and \<open>calculate_cost\<close>\<close>

record pricing =
  price_input :: rat
  price_output :: rat
  price_cache_5m :: rat
  price_cache_1h :: rat
  price_cache_read :: rat

definition MODEL_PRICING :: "(string \<times> pricing) list" where
  "MODEL_PRICING =
   [(''claude-opus-4-6'',
       \<lparr>price_input = 5, price_output = 25, price_cache_5m = 25 / 4,
        price_cache_1h = 10, price_cache_read = 1 / 2\<rparr>),
    (''claude-opus-4-5-20251101'',
       \<lparr>price_input = 5, price_output = 25, price_cache_5m = 25 / 4,
        price_cache_1h = 10, price_cache_read = 1 / 2\<rparr>),
    (''claude-opus-4-1-20250805'',
       \<lparr>price_input = 15, price_output = 75, price_cache_5m = 75 / 4,
        price_cache_1h = 30, price_cache_read = 3 / 2\<rparr>),
    (''claude-sonnet-4-5-20250929'',
       \<lparr>price_input = 3, price_output = 15, price_cache_5m = 15 / 4,
        price_cache_1h = 6, price_cache_read = 3 / 10\<rparr>),
    (''claude-haiku-4-5-20251001'',
       \<lparr>price_input = 1, price_output = 5, price_cache_5m = 5 / 4,
        price_cache_1h = 2, price_cache_read = 1 / 10\<rparr>)]"

text \<open>\<open>DEFAULT_PRICING = MODEL_PRICING["claude-opus-4-6"]\<close>: the entry of that key.\<close>

definition DEFAULT_PRICING :: pricing where
  "DEFAULT_PRICING = the (map_of MODEL_PRICING ''claude-opus-4-6'')"

section \<open>StatisticsEngine: the percentile helper of \<open>generate_stats\<close>\<close>

definition percentile_k :: "rat list \<Rightarrow> rat \<Rightarrow> rat" where
  "percentile_k data p = (p / 100) * of_int (int (length data) - 1)"

definition percentile_f :: "rat list \<Rightarrow> rat \<Rightarrow> int" where
  "percentile_f data p = py_int (percentile_k data p)"

definition percentile_c :: "rat list \<Rightarrow> rat \<Rightarrow> int" where
  "percentile_c data p =
     (let f = percentile_f data p in if f + 1 < int (length data) then f + 1 else f)"

definition percentile :: "rat list \<Rightarrow> rat \<Rightarrow> error + rat" where
  "percentile data p =
     (let k = percentile_k data p; f = percentile_f data p; c = percentile_c data p
      in case py_getitem data f of
           Inl e \<Rightarrow> Inl e
         | Inr vf \<Rightarrow>
             (case py_getitem data c of
                Inl e \<Rightarrow> Inl e
              | Inr vc \<Rightarrow> Inr (vf + (k - of_int f) * (vc - vf))))"


section \<open>Log records\<close>

text \<open>
  A decoded log line is a JSON value. An object is the association list of its keys
  (each key once), a number is a rational (see above).
\<close>

datatype json =
    JNull | JBool bool | JNum rat | JStr string | JArr "json list"
  | JObj "(string \<times> json) list"

text \<open>Python truth value of a decoded value (\<open>if ts:\<close>, \<open>if not first_user_msg:\<close>).\<close>

fun truthy :: "json \<Rightarrow> bool" where
  "truthy JNull = False"
| "truthy (JBool b) = b"
| "truthy (JNum r) = (r \<noteq> 0)"
| "truthy (JStr s) = (s \<noteq> [])"
| "truthy (JArr xs) = (xs \<noteq> [])"
| "truthy (JObj kvs) = (kvs \<noteq> [])"

text \<open>\<open>d.get(k, default)\<close>: only a dict has \<open>get\<close>; anything else raises AttributeError.\<close>

fun dict_get :: "json \<Rightarrow> string \<Rightarrow> json \<Rightarrow> error + json" where
  "dict_get (JObj kvs) k dflt = Inr (case map_of kvs k of Some v \<Rightarrow> v | None \<Rightarrow> dflt)"
| "dict_get _ k dflt = Inl AttributeError"

text \<open>\<open>x += v\<close> on a numeric counter: a bool counts as 0 or 1, a non-number raises.\<close>

fun num_add :: "rat \<Rightarrow> json \<Rightarrow> error + rat" where
  "num_add x (JNum r) = Inr (x + r)"
| "num_add x (JBool b) = Inr (x + (if b then 1 else 0))"
| "num_add x _ = Inl TypeError"

text \<open>\<open>v[:150]\<close>: strings and lists slice, nothing else does.\<close>

fun slice_150 :: "json \<Rightarrow> error + json" where
  "slice_150 (JStr s) = Inr (JStr (take 150 s))"
| "slice_150 (JArr xs) = Inr (JArr (take 150 xs))"
| "slice_150 _ = Inl TypeError"

text \<open>
  A value used as a dict key: lists and dicts are unhashable (TypeError); \<open>True\<close> and
  \<open>False\<close> are the keys \<open>1\<close> and \<open>0\<close>.
\<close>

fun dict_key :: "json \<Rightarrow> error + json" where
  "dict_key (JArr xs) = Inl TypeError"
| "dict_key (JObj kvs) = Inl TypeError"
| "dict_key (JBool b) = Inr (JNum (if b then 1 else 0))"
| "dict_key v = Inr v"

definition ebind :: "error + 'a \<Rightarrow> ('a \<Rightarrow> error + 'b) \<Rightarrow> error + 'b" where
  "ebind m f = (case m of Inl e \<Rightarrow> Inl e | Inr x \<Rightarrow> f x)"

section \<open>Strings: \<open>strip\<close>, \<open>split\<close> and the two regular expressions\<close>

text \<open>Characters are bytes; the classes below are the ASCII part of Python's.\<close>

definition py_isspace :: "char \<Rightarrow> bool" where
  "py_isspace c = ((of_char c :: nat) \<in> {9, 10, 11, 12, 13, 28, 29, 30, 31, 32})"

definition strip :: "string \<Rightarrow> string" where
  "strip s = rev (dropWhile py_isspace (rev (dropWhile py_isspace s)))"

fun split_on :: "char \<Rightarrow> string \<Rightarrow> string list" where
  "split_on c [] = [[]]"
| "split_on c (x # xs) =
     (if x = c then [] # split_on c xs
      else (x # hd (split_on c xs)) # tl (split_on c xs))"

definition starts_with :: "string \<Rightarrow> string \<Rightarrow> bool" where
  "starts_with p s = (take (length p) s = p)"

text \<open>The class \<open>[\w-]\<close>.\<close>

definition name_char :: "char \<Rightarrow> bool" where
  "name_char c =
     (let n = (of_char c :: nat)
      in (48 \<le> n \<and> n \<le> 57) \<or> (65 \<le> n \<and> n \<le> 90) \<or> (97 \<le> n \<and> n \<le> 122)
         \<or> n = 95 \<or> n = 45)"

text \<open>
  \<open><command-name>/([\w-]+)</command-name>\<close> matched at the start of \<open>s\<close>: the group is
  the longest run of name characters (a shorter run would have to be followed by
  \<open><\<close>, which is no name character).
\<close>

definition match_command_name :: "string \<Rightarrow> string option" where
  "match_command_name s =
     (if starts_with ''<command-name>/'' s then
        (let rest = drop (length ''<command-name>/'') s;
             name = takeWhile name_char rest;
             after = dropWhile name_char rest
         in if name \<noteq> [] \<and> starts_with ''</command-name>'' after then Some name else None)
      else None)"

text \<open>\<open>_RE_COMMAND_NAME.search\<close>: the match at the leftmost position that has one.\<close>

fun search_command_name :: "string \<Rightarrow> string option" where
  "search_command_name [] = None"
| "search_command_name (c # cs) =
     (case match_command_name (c # cs) of
        Some n \<Rightarrow> Some n
      | None \<Rightarrow> search_command_name cs)"

text \<open>\<open>(.*?)</command-args>\<close>: the shortest run without a newline before the closing tag.\<close>

fun lazy_args :: "string \<Rightarrow> string option" where
  "lazy_args [] = None"
| "lazy_args (c # cs) =
     (if starts_with ''</command-args>'' (c # cs) then Some []
      else if c = CHR 0x0A then None
      else map_option ((#) c) (lazy_args cs))"

definition match_command_args :: "string \<Rightarrow> string option" where
  "match_command_args s =
     (if starts_with ''<command-args>'' s
      then lazy_args (drop (length ''<command-args>'') s) else None)"

fun search_command_args :: "string \<Rightarrow> string option" where
  "search_command_args [] = None"
| "search_command_args (c # cs) =
     (case match_command_args (c # cs) of
        Some a \<Rightarrow> Some a
      | None \<Rightarrow> search_command_args cs)"

definition TRACKED_WORKFLOWS :: "string list" where
  "TRACKED_WORKFLOWS =
     [''ecc-dev-story'', ''ecc-code-review'', ''ecc-create-story'',
      ''ecc-e2e'', ''ecc-impact-analysis'', ''deploy-story'']"

definition detect_workflow_from_text :: "string \<Rightarrow> string \<times> string" where
  "detect_workflow_from_text text =
     (case search_command_name text of
        None \<Rightarrow> ([], [])
      | Some name \<Rightarrow>
          (name, case search_command_args text of None \<Rightarrow> [] | Some a \<Rightarrow> strip a))"

section \<open>UsageParser: \<open>parse_jsonl\<close>\<close>

record token_counts =
  n_input :: rat
  n_output :: rat
  n_cache_5m :: rat
  n_cache_1h :: rat
  n_cache_read :: rat
  n_messages :: nat

record task_call =
  subagent_type :: json
  description :: json
  model_override :: json

text \<open>
  The locals of \<open>parse_jsonl\<close>, which are also its result. \<open>None\<close> is \<open>JNull\<close>;
  \<open>tokens_by_model\<close> is the dict in insertion order.
\<close>

record parse_result =
  tokens_by_model :: "(json \<times> token_counts) list"
  first_ts :: json
  last_ts :: json
  msg_count :: nat
  first_user_msg :: json
  task_calls :: "task_call list"
  detected_workflow :: string
  detected_story :: string

definition initial_result :: parse_result where
  "initial_result =
     \<lparr>tokens_by_model = [], first_ts = JNull, last_ts = JNull, msg_count = 0,
      first_user_msg = JNull, task_calls = [], detected_workflow = [],
      detected_story = []\<rparr>"

definition zero_counts :: token_counts where
  "zero_counts =
     \<lparr>n_input = 0, n_output = 0, n_cache_5m = 0, n_cache_1h = 0, n_cache_read = 0,
      n_messages = 0\<rparr>"

text \<open>\<open>d[k] = v\<close> on an insertion-ordered dict.\<close>

fun dict_set :: "('k \<times> 'v) list \<Rightarrow> 'k \<Rightarrow> 'v \<Rightarrow> ('k \<times> 'v) list" where
  "dict_set [] k v = [(k, v)]"
| "dict_set ((k', v') # kvs) k v =
     (if k' = k then (k, v) # kvs else (k', v') # dict_set kvs k v)"

text \<open>Lines 218-222: the timestamp of a record, whatever the record is.\<close>

definition note_timestamp :: "parse_result \<Rightarrow> json \<Rightarrow> parse_result" where
  "note_timestamp st ts =
     (if truthy ts
      then st\<lparr>first_ts := (if \<not> truthy (first_ts st) then ts else first_ts st),
              last_ts := ts\<rparr>
      else st)"

text \<open>
  The loop over the blocks of a user record's list content: the texts collected so far
  and the first user message.
\<close>

fun collect_texts :: "json list \<Rightarrow> json list \<Rightarrow> json \<Rightarrow> error + (json list \<times> json)" where
  "collect_texts [] texts fum = Inr (texts, fum)"
| "collect_texts (JObj kvs # bs) texts fum =
     (if map_of kvs ''type'' = Some (JStr ''text'') then
        (case map_of kvs ''text'' of
           None \<Rightarrow> Inl KeyError
         | Some t \<Rightarrow>
             (if \<not> truthy fum
              then ebind (slice_150 t) (\<lambda>m. collect_texts bs (texts @ [t]) m)
              else collect_texts bs (texts @ [t]) fum))
      else collect_texts bs texts fum)"
| "collect_texts (_ # bs) texts fum = collect_texts bs texts fum"

text \<open>
  Lines 241-246: the first text whose command name is tracked. The regular expression
  raises TypeError on a text that is no string.
\<close>

fun detect_in_texts :: "json list \<Rightarrow> error + (string \<times> string) option" where
  "detect_in_texts [] = Inr None"
| "detect_in_texts (JStr s # ts) =
     (let (name, story) = detect_workflow_from_text s
      in if name \<noteq> [] \<and> name \<in> set TRACKED_WORKFLOWS then Inr (Some (name, story))
         else detect_in_texts ts)"
| "detect_in_texts (_ # ts) = Inl TypeError"

definition process_user :: "parse_result \<Rightarrow> json \<Rightarrow> error + parse_result" where
  "process_user st data =
     ebind (dict_get data ''message'' (JObj [])) (\<lambda>msg.
     ebind (dict_get msg ''content'' (JStr [])) (\<lambda>content.
     ebind (case content of
              JStr s \<Rightarrow>
                Inr ([content],
                     if \<not> truthy (first_user_msg st) then JStr (take 150 s)
                     else first_user_msg st)
            | JArr blocks \<Rightarrow> collect_texts blocks [] (first_user_msg st)
            | _ \<Rightarrow> Inr ([], first_user_msg st)) (\<lambda>(texts, fum).
     ebind (if detected_workflow st = [] then detect_in_texts texts else Inr None) (\<lambda>found.
     Inr (case found of
            None \<Rightarrow> st\<lparr>first_user_msg := fum\<rparr>
          | Some (name, story) \<Rightarrow>
              st\<lparr>first_user_msg := fum, detected_workflow := name,
                 detected_story := story\<rparr>)))))"

text \<open>Lines 277-288: the Task tool calls among the blocks of an assistant record.\<close>

fun collect_task_calls :: "json list \<Rightarrow> error + task_call list" where
  "collect_task_calls [] = Inr []"
| "collect_task_calls (JObj kvs # bs) =
     (if map_of kvs ''type'' = Some (JStr ''tool_use'')
         \<and> map_of kvs ''name'' = Some (JStr ''Task'')
      then
        ebind (dict_get (JObj kvs) ''input'' (JObj [])) (\<lambda>inp.
        ebind (dict_get inp ''subagent_type'' (JStr ''?'')) (\<lambda>sty.
        ebind (dict_get inp ''description'' (JStr ''?'')) (\<lambda>des.
        ebind (dict_get inp ''model'' (JStr ''inherited'')) (\<lambda>mo.
        ebind (collect_task_calls bs) (\<lambda>calls.
        Inr (\<lparr>subagent_type = sty, description = des, model_override = mo\<rparr> # calls))))))
      else collect_task_calls bs)"
| "collect_task_calls (_ # bs) = collect_task_calls bs"

text \<open>Lines 267-273: the two cache-write counters after one record.\<close>

definition add_cache_creation :: "token_counts \<Rightarrow> json \<Rightarrow> error + (rat \<times> rat)" where
  "add_cache_creation entry usage =
     ebind (dict_get usage ''cache_creation'' (JObj [])) (\<lambda>cache_detail.
     if truthy cache_detail then
       ebind (dict_get cache_detail ''ephemeral_5m_input_tokens'' (JNum 0)) (\<lambda>a.
       ebind (num_add (n_cache_5m entry) a) (\<lambda>c5.
       ebind (dict_get cache_detail ''ephemeral_1h_input_tokens'' (JNum 0)) (\<lambda>b.
       ebind (num_add (n_cache_1h entry) b) (\<lambda>c1. Inr (c5, c1)))))
     else
       ebind (dict_get usage ''cache_creation_input_tokens'' (JNum 0)) (\<lambda>b.
       ebind (num_add (n_cache_1h entry) b) (\<lambda>c1. Inr (n_cache_5m entry, c1))))"

definition process_assistant :: "parse_result \<Rightarrow> json \<Rightarrow> error + parse_result" where
  "process_assistant st data =
     ebind (dict_get data ''message'' (JObj [])) (\<lambda>msg.
     ebind (dict_get msg ''usage'' (JObj [])) (\<lambda>usage.
     ebind (dict_get msg ''model'' (JStr ''unknown'')) (\<lambda>model.
     ebind (dict_key model) (\<lambda>key.
     let entry = (case map_of (tokens_by_model st) key of
                    Some e \<Rightarrow> e | None \<Rightarrow> zero_counts)
     in
     ebind (dict_get usage ''input_tokens'' (JNum 0)) (\<lambda>v1.
     ebind (num_add (n_input entry) v1) (\<lambda>i.
     ebind (dict_get usage ''output_tokens'' (JNum 0)) (\<lambda>v2.
     ebind (num_add (n_output entry) v2) (\<lambda>out.
     ebind (dict_get usage ''cache_read_input_tokens'' (JNum 0)) (\<lambda>v3.
     ebind (num_add (n_cache_read entry) v3) (\<lambda>cr.
     ebind (add_cache_creation entry usage) (\<lambda>(c5, c1).
     ebind (dict_get msg ''content'' (JArr [])) (\<lambda>content.
     ebind (case content of JArr blocks \<Rightarrow> collect_task_calls blocks | _ \<Rightarrow> Inr [])
       (\<lambda>calls.
     Inr (st\<lparr>tokens_by_model :=
               dict_set (tokens_by_model st) key
                 \<lparr>n_input = i, n_output = out, n_cache_5m = c5, n_cache_1h = c1,
                  n_cache_read = cr, n_messages = n_messages entry + 1\<rparr>,
             msg_count := msg_count st + 1,
             task_calls := task_calls st @ calls\<rparr>))))))))))))))"

text \<open>The body of the loop for one decoded line.\<close>

definition process_record :: "parse_result \<Rightarrow> json \<Rightarrow> error + parse_result" where
  "process_record st data =
     ebind (dict_get data ''timestamp'' JNull) (\<lambda>ts.
     ebind (dict_get data ''type'' JNull) (\<lambda>ty.
     ebind (if ty = JStr ''user'' then process_user (note_timestamp st ts) data
            else Inr (note_timestamp st ts)) (\<lambda>st2.
     if ty = JStr ''assistant'' then process_assistant st2 data else Inr st2)))"

text \<open>
  The loop over the lines of the file. \<open>json.loads\<close> is the library's; it is the
  parameter \<open>loads\<close>, \<open>None\<close> standing for JSONDecodeError.
\<close>

fun parse_lines ::
  "(string \<Rightarrow> json option) \<Rightarrow> parse_result \<Rightarrow> string list \<Rightarrow> error + parse_result" where
  "parse_lines loads st [] = Inr st"
| "parse_lines loads st (l # ls) =
     (if strip l = [] then parse_lines loads st ls
      else case loads (strip l) of
             None \<Rightarrow> parse_lines loads st ls
           | Some data \<Rightarrow> ebind (process_record st data) (\<lambda>st'. parse_lines loads st' ls))"

definition parse_jsonl :: "(string \<Rightarrow> json option) \<Rightarrow> string list \<Rightarrow> error + parse_result" where
  "parse_jsonl loads lines = parse_lines loads initial_result lines"

section \<open>CostModel and SessionAggregator\<close>

text \<open>\<open>MODEL_PRICING.get(model, DEFAULT_PRICING)\<close>; only a string can be a key of the table.\<close>

definition pricing_for :: "json \<Rightarrow> pricing" where
  "pricing_for model =
     (case model of
        JStr s \<Rightarrow> (case map_of MODEL_PRICING s of Some p \<Rightarrow> p | None \<Rightarrow> DEFAULT_PRICING)
      | _ \<Rightarrow> DEFAULT_PRICING)"

definition calculate_cost :: "(json \<times> token_counts) list \<Rightarrow> rat" where
  "calculate_cost tbm =
     foldl (\<lambda>total (model, tokens).
              let pricing = pricing_for model
              in total
                 + n_input tokens * price_input pricing / 1000000
                 + n_output tokens * price_output pricing / 1000000
                 + n_cache_5m tokens * price_cache_5m pricing / 1000000
                 + n_cache_1h tokens * price_cache_1h pricing / 1000000
                 + n_cache_read tokens * price_cache_read pricing / 1000000)
           0 tbm"

text \<open>
  \<open>merge_tokens\<close>. The source walks a \<open>set\<close> of the keys, whose order Python leaves
  open; here the keys of \<open>base\<close> come first, then the new ones of \<open>addition\<close>.
\<close>

definition counts_or_zero :: "(json \<times> token_counts) list \<Rightarrow> json \<Rightarrow> token_counts" where
  "counts_or_zero d model = (case map_of d model of Some e \<Rightarrow> e | None \<Rightarrow> zero_counts)"

definition merge_tokens ::
  "(json \<times> token_counts) list \<Rightarrow> (json \<times> token_counts) list \<Rightarrow> (json \<times> token_counts) list" where
  "merge_tokens base addition =
     map (\<lambda>model.
            let a = counts_or_zero base model; b = counts_or_zero addition model
            in (model,
                \<lparr>n_input = n_input a + n_input b, n_output = n_output a + n_output b,
                 n_cache_5m = n_cache_5m a + n_cache_5m b,
                 n_cache_1h = n_cache_1h a + n_cache_1h b,
                 n_cache_read = n_cache_read a + n_cache_read b,
                 n_messages = n_messages a + n_messages b\<rparr>))
         (remdups (map fst base @ map fst addition))"

fun contains :: "string \<Rightarrow> string \<Rightarrow> bool" where
  "contains sub [] = (sub = [])"
| "contains sub (c # cs) = (starts_with sub (c # cs) \<or> contains sub cs)"

text \<open>The glob \<open>agent-*.jsonl\<close> on a file name.\<close>

definition agent_glob :: "string \<Rightarrow> bool" where
  "agent_glob name =
     (length ''agent-'' + length ''.jsonl'' \<le> length name
      \<and> starts_with ''agent-'' name
      \<and> drop (length name - length ''.jsonl'') name = ''.jsonl'')"

record subagent_result =
  sa_file :: string
  sa_first_msg :: json
  sa_tokens_by_model :: "(json \<times> token_counts) list"
  sa_cost :: rat
  sa_msg_count :: nat

record session_result =
  session_id :: string
  parent :: parse_result
  parent_cost :: rat
  subagents :: "subagent_result list"
  all_tokens :: "(json \<times> token_counts) list"
  total_cost :: rat

text \<open>The loop over the sub-agent files: the results so far and the merged tokens.\<close>

fun scan_subagents ::
  "(string \<Rightarrow> json option) \<Rightarrow> (string \<times> string list) list \<Rightarrow>
   subagent_result list \<Rightarrow> (json \<times> token_counts) list \<Rightarrow>
   error + (subagent_result list \<times> (json \<times> token_counts) list)" where
  "scan_subagents loads [] results tokens = Inr (results, tokens)"
| "scan_subagents loads ((name, lines) # files) results tokens =
     (if contains ''compact'' name then scan_subagents loads files results tokens
      else ebind (parse_jsonl loads lines) (\<lambda>sa.
           scan_subagents loads files
             (results @ [\<lparr>sa_file = name, sa_first_msg = first_user_msg sa,
                          sa_tokens_by_model = tokens_by_model sa,
                          sa_cost = calculate_cost (tokens_by_model sa),
                          sa_msg_count = msg_count sa\<rparr>])
             (merge_tokens tokens (tokens_by_model sa))))"

text \<open>
  \<open>analyze_session\<close>. The files are arguments: the lines of the parent log (\<open>None\<close>
  when the file is absent, where the source exits) and the listing of the sub-agent
  directory with the lines of each file (\<open>None\<close> when there is no such directory). The
  duration string, made by the library's date parser, is left out.
\<close>

definition analyze_session ::
  "(string \<Rightarrow> json option) \<Rightarrow> string \<Rightarrow> string list option \<Rightarrow>
   (string \<times> string list) list option \<Rightarrow> error + session_result" where
  "analyze_session loads sid parent_file subagents_dir =
     (case parent_file of
        None \<Rightarrow> Inl SystemExit
      | Some lines \<Rightarrow>
          ebind (parse_jsonl loads lines) (\<lambda>p.
          ebind (case subagents_dir of
                   None \<Rightarrow> Inr ([], tokens_by_model p)
                 | Some files \<Rightarrow>
                     scan_subagents loads (sort_key fst (filter (agent_glob \<circ> fst) files))
                       [] (tokens_by_model p)) (\<lambda>(results, tokens).
          Inr \<lparr>session_id = sid, parent = p,
               parent_cost = calculate_cost (tokens_by_model p),
               subagents = results, all_tokens = tokens,
               total_cost = calculate_cost tokens\<rparr>)))"

text \<open>The token totals of a history row (\<open>_build_csv_row\<close>).\<close>

definition total_input :: "session_result \<Rightarrow> rat" where
  "total_input r = sum_list (map (n_input \<circ> snd) (all_tokens r))"

definition total_output :: "session_result \<Rightarrow> rat" where
  "total_output r = sum_list (map (n_output \<circ> snd) (all_tokens r))"

section \<open>PathDecoder: \<open>_decode_project_path\<close>\<close>

text \<open>
  A path under the root \<open>/\<close> is the list of its parts. \<open>path / s\<close> drops the empty
  and the \<open>.\<close> components of \<open>s\<close>, and starts again from the root when \<open>s\<close>
  begins with a slash. The filesystem is the predicate \<open>ex\<close> (\<open>Path.exists\<close>).
\<close>

type_synonym path = "string list"

definition path_parts :: "string \<Rightarrow> string list" where
  "path_parts s = filter (\<lambda>x. x \<noteq> [] \<and> x \<noteq> ''.'') (split_on CHR ''/'' s)"

definition joinpath :: "path \<Rightarrow> string \<Rightarrow> path" where
  "joinpath p s = (if starts_with ''/'' s then path_parts s else p @ path_parts s)"

text \<open>The inner loop: the candidate and \<open>j\<close> when it ends.\<close>

function extend_candidate ::
  "(path \<Rightarrow> bool) \<Rightarrow> path \<Rightarrow> string list \<Rightarrow> string \<Rightarrow> nat \<Rightarrow> string \<times> nat" where
  "extend_candidate ex p parts candidate j =
     (if \<not> ex (joinpath p candidate) \<and> j < length parts
      then extend_candidate ex p parts (candidate @ ''-'' @ parts ! j) (j + 1)
      else (candidate, j))"
  by pat_completeness auto
termination
  by (relation "measure (\<lambda>(ex, p, parts, candidate, j). length parts - j)") auto

declare extend_candidate.simps [simp del]

lemma extend_candidate_advances: "j \<le> snd (extend_candidate ex p parts candidate j)"
proof (induction ex p parts candidate j rule: extend_candidate.induct)
  case (1 ex p parts candidate j)
  show ?case
  proof (cases "\<not> ex (joinpath p candidate) \<and> j < length parts")
    case True
    with 1 have "j + 1 \<le> snd (extend_candidate ex p parts candidate j)"
      by (subst extend_candidate.simps) simp
    then show ?thesis by simp
  next
    case False
    then show ?thesis by (subst extend_candidate.simps) auto
  qed
qed

text \<open>The outer loop.\<close>

function decode_loop :: "(path \<Rightarrow> bool) \<Rightarrow> string list \<Rightarrow> path \<Rightarrow> nat \<Rightarrow> path" where
  "decode_loop ex parts p i =
     (if i < length parts
      then decode_loop ex parts
             (joinpath p (fst (extend_candidate ex p parts (parts ! i) (i + 1))))
             (snd (extend_candidate ex p parts (parts ! i) (i + 1)))
      else p)"
  by pat_completeness auto
termination
proof (relation "measure (\<lambda>(ex, parts, p, i). length parts - i)")
  show "wf (measure (\<lambda>(ex, parts, p, i). length parts - i))" by simp
next
  fix ex :: "path \<Rightarrow> bool" and parts :: "string list" and p :: path and i :: nat
  assume "i < length parts"
  moreover have "i + 1 \<le> snd (extend_candidate ex p parts (parts ! i) (i + 1))"
    by (rule extend_candidate_advances)
  ultimately show
    "((ex, parts, joinpath p (fst (extend_candidate ex p parts (parts ! i) (i + 1))),
       snd (extend_candidate ex p parts (parts ! i) (i + 1))),
      ex, parts, p, i) \<in> measure (\<lambda>(ex, parts, p, i). length parts - i)"
    by simp
qed

declare decode_loop.simps [simp del]

definition decode_project_path :: "(path \<Rightarrow> bool) \<Rightarrow> string \<Rightarrow> path" where
  "decode_project_path ex encoded = decode_loop ex (split_on CHR ''-'' (drop 1 encoded)) [] 0"

section \<open>StatisticsEngine: \<open>generate_stats\<close>\<close>

text \<open>
  A row of the history file as \<open>csv.DictReader\<close> gives it, with the columns the engine
  reads. The cost cell is the number \<open>float\<close> makes of it, \<open>None\<close> when \<open>float\<close>
  rejects the cell.
\<close>

record history_row =
  h_date :: string
  h_session_id :: string
  h_workflow :: string
  h_models :: string
  h_total_cost :: "rat option"

record outlier =
  o_date :: string
  o_session_id :: string
  o_cost :: rat
  o_ratio :: rat

record workflow_stat =
  w_count :: nat
  w_total_cost :: rat
  w_avg :: rat
  w_avg_last_10 :: rat
  w_p50 :: rat
  w_p75 :: rat
  w_p90 :: rat

text \<open>The returned dict, without its time stamp and file name.\<close>

record stats =
  st_total_sessions :: nat
  st_total_cost :: rat
  st_avg_overall :: rat
  st_avg_last_10 :: rat
  st_avg_last_20 :: rat
  st_p50 :: rat
  st_p75 :: rat
  st_p90 :: rat
  st_p95 :: rat
  st_warning :: rat
  st_high :: rat
  st_trend :: "rat option"
  st_recent_outliers :: "outlier list"
  st_by_model :: "(string \<times> nat \<times> rat) list"
  st_by_workflow :: "(string \<times> workflow_stat) list"

text \<open>Lines 696-702: the rows kept, each with its cost.\<close>

fun read_rows :: "history_row list \<Rightarrow> error + (history_row \<times> rat) list" where
  "read_rows [] = Inr []"
| "read_rows (r # rs) =
     (case h_total_cost r of
        None \<Rightarrow> Inl ValueError
      | Some cost \<Rightarrow>
          ebind (read_rows rs) (\<lambda>kept. Inr (if 0 < cost then (r, cost) # kept else kept)))"

text \<open>\<open>sum(xs) / len(xs)\<close>.\<close>

definition mean :: "rat list \<Rightarrow> error + rat" where
  "mean xs = (if xs = [] then Inl ZeroDivisionError
              else Inr (sum_list xs / of_nat (length xs)))"

definition last_10 :: "rat list \<Rightarrow> rat list" where
  "last_10 costs = (if 10 \<le> length costs then last_n 10 costs else costs)"

definition last_20 :: "rat list \<Rightarrow> rat list" where
  "last_20 costs = (if 20 \<le> length costs then last_n 20 costs else costs)"

text \<open>\<open>costs[-20:-10]\<close>.\<close>

definition prev_10 :: "rat list \<Rightarrow> rat list" where
  "prev_10 costs =
     take ((length costs - 10) - (length costs - 20)) (drop (length costs - 20) costs)"

definition warning_threshold :: "rat \<Rightarrow> rat \<Rightarrow> rat" where
  "warning_threshold p75 avg_last_20 = max p75 (avg_last_20 * (3 / 2))"

definition high_threshold :: "rat \<Rightarrow> rat \<Rightarrow> rat" where
  "high_threshold p90 avg_last_20 = max p90 (avg_last_20 * 2)"

text \<open>Lines 735-746: the loop over the last 20 rows.\<close>

definition find_recent_outliers ::
  "(history_row \<times> rat) list \<Rightarrow> rat \<Rightarrow> rat \<Rightarrow> outlier list" where
  "find_recent_outliers rows warning avg_last_20 =
     map (\<lambda>(r, cost).
            \<lparr>o_date = h_date r, o_session_id = h_session_id r, o_cost = cost,
             o_ratio = py_round (if 0 < avg_last_20 then cost / avg_last_20 else 0) 1\<rparr>)
         (filter (\<lambda>(r, cost). warning \<le> cost) (last_n 20 rows))"

definition trend_of :: "rat list \<Rightarrow> rat \<Rightarrow> error + rat option" where
  "trend_of costs avg_last_10 =
     (if 20 \<le> length costs then
        ebind (mean (prev_10 costs)) (\<lambda>avg_prev_10.
        Inr (if 0 < avg_prev_10
             then Some (py_round ((avg_last_10 - avg_prev_10) / avg_prev_10 * 100) 1)
             else None))
      else Inr None)"

definition group_by_model :: "(history_row \<times> rat) list \<Rightarrow> (string \<times> nat \<times> rat) list" where
  "group_by_model rows =
     foldl (\<lambda>d (r, cost).
              case map_of d (h_models r) of
                None \<Rightarrow> dict_set d (h_models r) (1, cost)
              | Some (n, t) \<Rightarrow> dict_set d (h_models r) (n + 1, t + cost))
           [] rows"

definition group_by_workflow :: "(history_row \<times> rat) list \<Rightarrow> (string \<times> rat list) list" where
  "group_by_workflow rows =
     foldl (\<lambda>d (r, cost).
              let w = strip (h_workflow r)
              in if w = [] then d
                 else case map_of d w of
                        None \<Rightarrow> dict_set d w [cost]
                      | Some cs \<Rightarrow> dict_set d w (cs @ [cost]))
           [] rows"

definition workflow_stat_of :: "rat list \<Rightarrow> error + workflow_stat" where
  "workflow_stat_of wf_costs =
     (let wf_sorted = sort wf_costs
      in ebind (mean wf_costs) (\<lambda>avg.
         ebind (mean (last_10 wf_costs)) (\<lambda>avg10.
         ebind (percentile wf_sorted 50) (\<lambda>p50.
         ebind (percentile wf_sorted 75) (\<lambda>p75.
         ebind (percentile wf_sorted 90) (\<lambda>p90.
         Inr \<lparr>w_count = length wf_sorted, w_total_cost = py_round (sum_list wf_costs) 2,
              w_avg = py_round avg 2, w_avg_last_10 = py_round avg10 2,
              w_p50 = py_round p50 2, w_p75 = py_round p75 2,
              w_p90 = py_round p90 2\<rparr>))))))"

fun workflow_stats_of :: "(string \<times> rat list) list \<Rightarrow> error + (string \<times> workflow_stat) list" where
  "workflow_stats_of [] = Inr []"
| "workflow_stats_of ((w, wf_costs) # rest) =
     (if wf_costs = [] then workflow_stats_of rest
      else ebind (workflow_stat_of wf_costs) (\<lambda>ws.
           ebind (workflow_stats_of rest) (\<lambda>more. Inr ((w, ws) # more))))"

definition compute_stats :: "(history_row \<times> rat) list \<Rightarrow> error + stats" where
  "compute_stats rows =
     (let costs = map snd rows; costs_sorted = sort costs
      in ebind (mean costs) (\<lambda>avg_overall.
         ebind (mean (last_10 costs)) (\<lambda>avg_last_10.
         ebind (mean (last_20 costs)) (\<lambda>avg_last_20.
         ebind (percentile costs_sorted 50) (\<lambda>p50.
         ebind (percentile costs_sorted 75) (\<lambda>p75.
         ebind (percentile costs_sorted 90) (\<lambda>p90.
         ebind (percentile costs_sorted 95) (\<lambda>p95.
         ebind (trend_of costs avg_last_10) (\<lambda>trend.
         ebind (workflow_stats_of (group_by_workflow rows)) (\<lambda>workflow_stats.
         Inr \<lparr>st_total_sessions = length costs_sorted,
              st_total_cost = py_round (sum_list costs) 2,
              st_avg_overall = py_round avg_overall 2,
              st_avg_last_10 = py_round avg_last_10 2,
              st_avg_last_20 = py_round avg_last_20 2,
              st_p50 = py_round p50 2, st_p75 = py_round p75 2,
              st_p90 = py_round p90 2, st_p95 = py_round p95 2,
              st_warning = py_round (warning_threshold p75 avg_last_20) 2,
              st_high = py_round (high_threshold p90 avg_last_20) 2,
              st_trend = trend,
              st_recent_outliers =
                find_recent_outliers rows (warning_threshold p75 avg_last_20) avg_last_20,
              st_by_model = group_by_model rows,
              st_by_workflow = workflow_stats\<rparr>))))))))))"

text \<open>
  \<open>generate_stats\<close> on the rows of the history file; \<open>None\<close> as argument is the absent
  file, \<open>None\<close> as result the empty dict.
\<close>

definition generate_stats :: "history_row list option \<Rightarrow> error + stats option" where
  "generate_stats file =
     (case file of
        None \<Rightarrow> Inr None
      | Some file_rows \<Rightarrow>
          ebind (read_rows file_rows) (\<lambda>rows.
          if rows = [] then Inr None
          else ebind (compute_stats rows) (\<lambda>s. Inr (Some s))))"

section \<open>Predicates of the claims and example inputs\<close>

text \<open>The directory tree \<open>/a/b-c/d\<close>: the root and the three prefixes exist, nothing else.\<close>

definition tree_abcd :: "path \<Rightarrow> bool" where
  "tree_abcd p = (p \<in> {[], [''a''], [''a'', ''b-c''], [''a'', ''b-c'', ''d'']})"

text \<open>A row whose cost cell is a positive number: the rows \<open>generate_stats\<close> keeps.\<close>

definition positive_cost :: "history_row \<Rightarrow> bool" where
  "positive_cost r = (case h_total_cost r of Some c \<Rightarrow> 0 < c | None \<Rightarrow> False)"

text \<open>One zero-cost row and nine rows of 1.00.\<close>

definition history_one_zero :: "history_row list" where
  "history_one_zero =
     \<lparr>h_date = ''2026-02-01 09:00'', h_session_id = ''aaaaaaaaaaaa'', h_workflow = [],
      h_models = ''opus'', h_total_cost = Some 0\<rparr>
     # replicate 9
         \<lparr>h_date = ''2026-02-02 09:00'', h_session_id = ''bbbbbbbbbbbb'', h_workflow = [],
          h_models = ''opus'', h_total_cost = Some 1\<rparr>"

text \<open>Twenty rows: nineteen of 1.00, then the most recent one of 5.00.\<close>

definition history_outlier :: "history_row list" where
  "history_outlier =
     replicate 19
       \<lparr>h_date = ''2026-02-02 09:00'', h_session_id = ''bbbbbbbbbbbb'', h_workflow = [],
        h_models = ''opus'', h_total_cost = Some 1\<rparr>
     @ [\<lparr>h_date = ''2026-02-03 09:00'', h_session_id = ''cccccccccccc'', h_workflow = [],
         h_models = ''opus'', h_total_cost = Some 5\<rparr>]"

subsection \<open>Log lines\<close>

text \<open>The lines \<open>parse_jsonl\<close> processes: not blank once stripped, and decoded.\<close>

definition decodable :: "(string \<Rightarrow> json option) \<Rightarrow> string \<Rightarrow> bool" where
  "decodable loads l = (strip l \<noteq> [] \<and> loads (strip l) \<noteq> None)"

definition decoded :: "(string \<Rightarrow> json option) \<Rightarrow> string list \<Rightarrow> json list" where
  "decoded loads lines =
     List.map_filter (\<lambda>l. if strip l = [] then None else loads (strip l)) lines"

text \<open>The timestamp a record carries (\<open>JNull\<close> when it has none), and those that count.\<close>

definition timestamp_of :: "json \<Rightarrow> json" where
  "timestamp_of d = (case dict_get d ''timestamp'' JNull of Inr t \<Rightarrow> t | Inl e \<Rightarrow> JNull)"

definition timestamps_seen :: "(string \<Rightarrow> json option) \<Rightarrow> string list \<Rightarrow> json list" where
  "timestamps_seen loads lines = filter truthy (map timestamp_of (decoded loads lines))"

text \<open>
  The texts of a user record, in order: the string content, or the \<open>text\<close> of each
  block of type \<open>text\<close>. Other records have none.
\<close>

definition block_text :: "json \<Rightarrow> json option" where
  "block_text b =
     (case b of
        JObj kvs \<Rightarrow> if map_of kvs ''type'' = Some (JStr ''text'') then map_of kvs ''text'' else None
      | _ \<Rightarrow> None)"

definition record_texts :: "json \<Rightarrow> json list" where
  "record_texts d =
     (case d of
        JObj kvs \<Rightarrow>
          (if map_of kvs ''type'' = Some (JStr ''user'') then
             (case map_of kvs ''message'' of
                None \<Rightarrow> [JStr []]
              | Some (JObj m) \<Rightarrow>
                  (case map_of m ''content'' of
                     None \<Rightarrow> [JStr []]
                   | Some (JStr s) \<Rightarrow> [JStr s]
                   | Some (JArr blocks) \<Rightarrow> List.map_filter block_text blocks
                   | Some _ \<Rightarrow> [])
              | Some _ \<Rightarrow> [])
           else [])
      | _ \<Rightarrow> [])"

definition user_texts :: "json list \<Rightarrow> json list" where
  "user_texts records = concat (map record_texts records)"

text \<open>The workflow a text locks in: the first command name of the text, when tracked.\<close>

definition text_workflow :: "json \<Rightarrow> string option" where
  "text_workflow t =
     (case t of
        JStr s \<Rightarrow>
          (let name = fst (detect_workflow_from_text s)
           in if name \<noteq> [] \<and> name \<in> set TRACKED_WORKFLOWS then Some name else None)
      | _ \<Rightarrow> None)"

definition first_locked_workflow :: "json list \<Rightarrow> string" where
  "first_locked_workflow texts =
     (case List.map_filter text_workflow texts of [] \<Rightarrow> [] | w # _ \<Rightarrow> w)"

text \<open>
  The reading of claim C9: every command name that appears in a text, at any position,
  and the first tracked one among all of them in log order.
\<close>

fun command_names :: "string \<Rightarrow> string list" where
  "command_names [] = []"
| "command_names (c # cs) =
     (case match_command_name (c # cs) of
        Some n \<Rightarrow> n # command_names cs
      | None \<Rightarrow> command_names cs)"

definition first_tracked_command_name :: "json list \<Rightarrow> string" where
  "first_tracked_command_name texts =
     (case filter (\<lambda>n. n \<in> set TRACKED_WORKFLOWS)
             (concat (map (\<lambda>t. case t of JStr s \<Rightarrow> command_names s | _ \<Rightarrow> []) texts)) of
        [] \<Rightarrow> []
      | n # _ \<Rightarrow> n)"

subsection \<open>Records of the documented shape\<close>

text \<open>
  A shape under which the loop body raises nothing: the record is an object; its
  \<open>message\<close>, if present, is an object; a text block of a user record carries a string;
  the model of an assistant record is hashable, its usage is an object with numeric
  counters, and a Task block carries an object as \<open>input\<close>, if any.
\<close>

fun is_number :: "json \<Rightarrow> bool" where
  "is_number (JNum r) = True"
| "is_number (JBool b) = True"
| "is_number _ = False"

definition number_field :: "(string \<times> json) list \<Rightarrow> string \<Rightarrow> bool" where
  "number_field kvs k = (case map_of kvs k of None \<Rightarrow> True | Some v \<Rightarrow> is_number v)"

definition text_block_ok :: "json \<Rightarrow> bool" where
  "text_block_ok b =
     (case b of
        JObj kvs \<Rightarrow>
          (if map_of kvs ''type'' = Some (JStr ''text'')
           then (case map_of kvs ''text'' of Some (JStr s) \<Rightarrow> True | _ \<Rightarrow> False)
           else True)
      | _ \<Rightarrow> True)"

definition task_block_ok :: "json \<Rightarrow> bool" where
  "task_block_ok b =
     (case b of
        JObj kvs \<Rightarrow>
          (if map_of kvs ''type'' = Some (JStr ''tool_use'')
              \<and> map_of kvs ''name'' = Some (JStr ''Task'')
           then (case map_of kvs ''input'' of
                   None \<Rightarrow> True | Some (JObj i) \<Rightarrow> True | Some _ \<Rightarrow> False)
           else True)
      | _ \<Rightarrow> True)"

definition cache_detail_ok :: "(string \<times> json) list \<Rightarrow> bool" where
  "cache_detail_ok usage =
     (case map_of usage ''cache_creation'' of
        None \<Rightarrow> number_field usage ''cache_creation_input_tokens''
      | Some cd \<Rightarrow>
          (if truthy cd
           then (case cd of
                   JObj c \<Rightarrow> number_field c ''ephemeral_5m_input_tokens''
                             \<and> number_field c ''ephemeral_1h_input_tokens''
                 | _ \<Rightarrow> False)
           else number_field usage ''cache_creation_input_tokens''))"

definition usage_ok :: "json \<Rightarrow> bool" where
  "usage_ok u =
     (case u of
        JObj usage \<Rightarrow>
          number_field usage ''input_tokens'' \<and> number_field usage ''output_tokens''
          \<and> number_field usage ''cache_read_input_tokens'' \<and> cache_detail_ok usage
      | _ \<Rightarrow> False)"

definition hashable :: "json \<Rightarrow> bool" where
  "hashable v = (case v of JArr xs \<Rightarrow> False | JObj kvs \<Rightarrow> False | _ \<Rightarrow> True)"

definition user_message_ok :: "(string \<times> json) list \<Rightarrow> bool" where
  "user_message_ok m =
     (case map_of m ''content'' of
        Some (JArr blocks) \<Rightarrow> list_all text_block_ok blocks
      | _ \<Rightarrow> True)"

definition assistant_message_ok :: "(string \<times> json) list \<Rightarrow> bool" where
  "assistant_message_ok m =
     (usage_ok (case map_of m ''usage'' of None \<Rightarrow> JObj [] | Some u \<Rightarrow> u)
      \<and> hashable (case map_of m ''model'' of None \<Rightarrow> JStr ''unknown'' | Some v \<Rightarrow> v)
      \<and> (case map_of m ''content'' of
            Some (JArr blocks) \<Rightarrow> list_all task_block_ok blocks
          | _ \<Rightarrow> True))"

definition record_ok :: "json \<Rightarrow> bool" where
  "record_ok d =
     (case d of
        JObj kvs \<Rightarrow>
          (case map_of kvs ''message'' of
             None \<Rightarrow> True
           | Some (JObj m) \<Rightarrow>
               (if map_of kvs ''type'' = Some (JStr ''user'') then user_message_ok m
                else if map_of kvs ''type'' = Some (JStr ''assistant'')
                then assistant_message_ok m else True)
           | Some _ \<Rightarrow>
               map_of kvs ''type'' \<noteq> Some (JStr ''user'')
               \<and> map_of kvs ''type'' \<noteq> Some (JStr ''assistant''))
      | _ \<Rightarrow> False)"

subsection \<open>Example log lines\<close>

text \<open>An assistant record with a model, an input count and an output count, no cache use.\<close>

definition assistant_record :: "string \<Rightarrow> rat \<Rightarrow> rat \<Rightarrow> json" where
  "assistant_record m i out =
     JObj [(''type'', JStr ''assistant''),
           (''message'',
            JObj [(''model'', JStr m),
                  (''usage'', JObj [(''input_tokens'', JNum i), (''output_tokens'', JNum out)])])]"

definition sonnet_line :: string where
  \<open>sonnet_line =
     ''{"type":"assistant","message":{"model":"sonnet","usage":{"input_tokens":1000,"output_tokens":500}}}''\<close>

definition sonnet_4_5_line :: string where
  \<open>sonnet_4_5_line =
     ''{"type":"assistant","message":{"model":"claude-sonnet-4-5-20250929","usage":{"input_tokens":1000,"output_tokens":500}}}''\<close>

definition late_line :: string where
  \<open>late_line = ''{"type":"system","timestamp":"2026-02-02T10:00:00Z"}''\<close>

definition early_line :: string where
  \<open>early_line = ''{"type":"system","timestamp":"2026-02-01T10:00:00Z"}''\<close>

definition dev_story_line :: string where
  \<open>dev_story_line =
     ''{"type":"user","message":{"content":"<command-name>/ecc-dev-story</command-name><command-args>15-3</command-args>"}}''\<close>

definition e2e_line :: string where
  \<open>e2e_line = ''{"type":"user","message":{"content":"<command-name>/ecc-e2e</command-name>"}}''\<close>

definition two_commands_line :: string where
  \<open>two_commands_line =
     ''{"type":"user","message":{"content":"<command-name>/clear</command-name> <command-name>/ecc-e2e</command-name>"}}''\<close>

text \<open>A line cut off while it was written: no JSON.\<close>

definition truncated_line :: string where
  \<open>truncated_line = ''{"type":"assistant","message":{"model":"son''\<close>

definition null_line :: string where
  "null_line = ''null''"

definition user_record :: "string \<Rightarrow> json" where
  "user_record text = JObj [(''type'', JStr ''user''), (''message'', JObj [(''content'', JStr text)])]"

definition system_record :: "string \<Rightarrow> json" where
  "system_record ts = JObj [(''type'', JStr ''system''), (''timestamp'', JStr ts)]"

text \<open>
  A decoder for the examples: \<open>json.loads\<close> on the lines above, each with the value
  it decodes to; every other text is rejected.
\<close>

definition example_loads :: "string \<Rightarrow> json option" where
  "example_loads =
     map_of
       [(sonnet_line, assistant_record ''sonnet'' 1000 500),
        (sonnet_4_5_line, assistant_record ''claude-sonnet-4-5-20250929'' 1000 500),
        (late_line, system_record ''2026-02-02T10:00:00Z''),
        (early_line, system_record ''2026-02-01T10:00:00Z''),
        (dev_story_line,
         user_record ''<command-name>/ecc-dev-story</command-name><command-args>15-3</command-args>''),
        (e2e_line, user_record ''<command-name>/ecc-e2e</command-name>''),
        (two_commands_line,
         user_record ''<command-name>/clear</command-name> <command-name>/ecc-e2e</command-name>''),
        (null_line, JNull)]"

section \<open>Basic facts\<close>

lemma ebind_Inr [simp]: "ebind (Inr x) f = f x"
  by (simp add: ebind_def)

lemma ebind_Inl [simp]: "ebind (Inl e) f = Inl e"
  by (simp add: ebind_def)

lemma ebind_eq_Inr: "ebind m f = Inr y \<longleftrightarrow> (\<exists>x. m = Inr x \<and> f x = Inr y)"
  by (cases m) simp_all

section \<open>The percentile helper: range of the indices and the interpolation formula\<close>

lemma percentile_k_bounds:
  assumes "data \<noteq> []" "0 \<le> p" "p \<le> 100"
  shows "0 \<le> percentile_k data p" "percentile_k data p \<le> of_int (int (length data) - 1)"
proof -
  have n: "(0::rat) \<le> of_int (int (length data) - 1)"
    using assms(1) by (cases data) auto
  have q: "0 \<le> p / 100" "p / 100 \<le> 1" using assms by auto
  show "0 \<le> percentile_k data p"
    unfolding percentile_k_def using q(1) n by (rule mult_nonneg_nonneg)
  have "(p / 100) * of_int (int (length data) - 1) \<le> 1 * of_int (int (length data) - 1)"
    using q(2) n by (rule mult_right_mono)
  then show "percentile_k data p \<le> of_int (int (length data) - 1)"
    unfolding percentile_k_def by simp
qed

lemma percentile_f_floor:
  assumes "data \<noteq> []" "0 \<le> p" "p \<le> 100"
  shows "percentile_f data p = \<lfloor>percentile_k data p\<rfloor>"
  using percentile_k_bounds(1)[OF assms] by (simp add: percentile_f_def py_int_def)

lemma percentile_f_bounds:
  assumes "data \<noteq> []" "0 \<le> p" "p \<le> 100"
  shows "0 \<le> percentile_f data p" "percentile_f data p < int (length data)"
proof -
  have f: "percentile_f data p = \<lfloor>percentile_k data p\<rfloor>" by (rule percentile_f_floor[OF assms])
  show "0 \<le> percentile_f data p"
    using percentile_k_bounds(1)[OF assms] by (simp add: f)
  have "\<lfloor>percentile_k data p\<rfloor> \<le> \<lfloor>(of_int (int (length data) - 1) :: rat)\<rfloor>"
    using percentile_k_bounds(2)[OF assms] by (rule floor_mono)
  then have "\<lfloor>percentile_k data p\<rfloor> \<le> int (length data) - 1"
    by (simp only: floor_of_int)
  then show "percentile_f data p < int (length data)" by (simp add: f)
qed

lemma percentile_c_bounds:
  assumes "data \<noteq> []" "0 \<le> p" "p \<le> 100"
  shows "percentile_f data p \<le> percentile_c data p" "percentile_c data p < int (length data)"
  using percentile_f_bounds[OF assms] by (auto simp: percentile_c_def Let_def)

lemma percentile_value:
  assumes "data \<noteq> []" "0 \<le> p" "p \<le> 100"
  shows "percentile data p =
           Inr (data ! nat (percentile_f data p)
                + (percentile_k data p - of_int (percentile_f data p))
                  * (data ! nat (percentile_c data p) - data ! nat (percentile_f data p)))"
proof -
  have f: "py_getitem data (percentile_f data p) = Inr (data ! nat (percentile_f data p))"
    using percentile_f_bounds[OF assms] by (simp add: py_getitem_def)
  have "0 \<le> percentile_c data p"
    using percentile_f_bounds(1)[OF assms] percentile_c_bounds(1)[OF assms] by linarith
  then have c: "py_getitem data (percentile_c data p) = Inr (data ! nat (percentile_c data p))"
    using percentile_c_bounds(2)[OF assms] by (simp add: py_getitem_def)
  show ?thesis by (simp add: percentile_def Let_def f c)
qed

text \<open>
  Claim C10. For a non-empty list and a percentile \<open>p\<close> between 0 and 100, the index
  \<open>f = floor(p/100 * (len - 1))\<close> and the index \<open>c\<close> (\<open>f + 1\<close> clamped to the last
  index) satisfy \<open>0 \<le> f \<le> c < len\<close>, so the helper reads the list in range and
  returns a value; a singleton list and \<open>p = 100\<close> are included.
\<close>

theorem percentile_indices_in_bounds:
  assumes "data \<noteq> []" "0 \<le> p" "p \<le> 100"
  shows "percentile_f data p = \<lfloor>p / 100 * of_int (int (length data) - 1)\<rfloor>
         \<and> 0 \<le> percentile_f data p
         \<and> percentile_f data p \<le> percentile_c data p
         \<and> percentile_c data p < int (length data)
         \<and> percentile_c data p = min (percentile_f data p + 1) (int (length data) - 1)
         \<and> (\<exists>v. percentile data p = Inr v)"
proof -
  have "percentile_c data p = min (percentile_f data p + 1) (int (length data) - 1)"
    using percentile_f_bounds(2)[OF assms] by (auto simp: percentile_c_def Let_def min_def)
  then show ?thesis
    using percentile_f_floor[OF assms] percentile_f_bounds[OF assms]
      percentile_c_bounds[OF assms] percentile_value[OF assms]
    by (simp add: percentile_k_def)
qed

theorem percentile_indices_in_bounds_witness:
  "[7] \<noteq> ([] :: rat list) \<and> (0::rat) \<le> 100 \<and> (100::rat) \<le> 100
   \<and> percentile_f [7] 100 = 0 \<and> percentile_c [7] 100 = 0 \<and> percentile [7] 100 = Inr 7
   \<and> percentile_f [1, 2, 3] 100 = 2 \<and> percentile_c [1, 2, 3] 100 = 2"
  using percentile_indices_in_bounds [of "[7]" 100]
    percentile_indices_in_bounds [of "[1, 2, 3]" 100]
  by (simp add: percentile_def percentile_k_def percentile_f_def percentile_c_def py_int_def py_getitem_def)


lemma percentile_at_integer:
  assumes "data \<noteq> []" "0 \<le> p" "p \<le> 100" "percentile_k data p = of_int m"
  shows "percentile data p = Inr (data ! nat m)"
proof -
  have "percentile_f data p = m"
    using percentile_f_floor[OF assms(1-3)] assms(4) by simp
  then show ?thesis
    using percentile_value[OF assms(1-3)] assms(4) by simp
qed

lemma sorted_nth_0_Min:
  assumes "xs \<noteq> []" "sorted xs"
  shows "xs ! 0 = Min (set (xs :: 'a::linorder list))"
proof (rule sym, rule Min_eqI)
  show "finite (set xs)" by simp
  show "xs ! 0 \<in> set xs" using assms(1) by simp
  fix y assume "y \<in> set xs"
  then obtain i where "i < length xs" "xs ! i = y" by (auto simp: in_set_conv_nth)
  then show "xs ! 0 \<le> y" using sorted_nth_mono[OF assms(2), of 0 i] by simp
qed

lemma sorted_nth_last_Max:
  assumes "xs \<noteq> []" "sorted xs"
  shows "xs ! (length xs - 1) = Max (set (xs :: 'a::linorder list))"
proof (rule sym, rule Max_eqI)
  show "finite (set xs)" by simp
  show "xs ! (length xs - 1) \<in> set xs" using assms(1) by simp
  fix y assume "y \<in> set xs"
  then obtain i where "i < length xs" "xs ! i = y" by (auto simp: in_set_conv_nth)
  then show "y \<le> xs ! (length xs - 1)"
    using sorted_nth_mono[OF assms(2), of i "length xs - 1"] by auto
qed

lemma percentile_spec_formula:
  assumes "data \<noteq> []" "0 \<le> p" "p \<le> 100"
  defines "k \<equiv> p / 100 * of_int (int (length data) - 1)"
  shows "percentile data p =
           Inr (data ! nat \<lfloor>k\<rfloor> + (k - of_int \<lfloor>k\<rfloor>) * (data ! nat \<lceil>k\<rceil> - data ! nat \<lfloor>k\<rfloor>))"
proof -
  have kk: "percentile_k data p = k" by (simp add: k_def percentile_k_def)
  have f: "percentile_f data p = \<lfloor>k\<rfloor>"
    using percentile_f_floor[OF assms(1-3)] kk by simp
  show ?thesis
  proof (cases "k = of_int \<lfloor>k\<rfloor>")
    case True
    then have "percentile data p = Inr (data ! nat \<lfloor>k\<rfloor>)"
      using percentile_at_integer[OF assms(1-3), of "\<lfloor>k\<rfloor>"] kk by simp
    with True show ?thesis by simp
  next
    case False
    then have lt: "of_int \<lfloor>k\<rfloor> < k"
      using of_int_floor_le[of k] by linarith
    have ceil: "\<lceil>k\<rceil> = \<lfloor>k\<rfloor> + 1"
      using False by (metis ceiling_altdef)
    have "k \<le> of_int (int (length data) - 1)"
      using percentile_k_bounds(2)[OF assms(1-3)] kk by simp
    with lt have "(of_int \<lfloor>k\<rfloor> :: rat) < of_int (int (length data) - 1)" by linarith
    then have "\<lfloor>k\<rfloor> < int (length data) - 1" by (simp only: of_int_less_iff)
    then have "percentile_c data p = \<lfloor>k\<rfloor> + 1"
      by (simp add: percentile_c_def f)
    then show ?thesis
      using percentile_value[OF assms(1-3)] by (simp add: f kk ceil)
  qed
qed

text \<open>
  Claim C3. On a non-empty sorted sequence \<open>v\<close> of \<open>n\<close> values and \<open>p\<close> between 0 and
  100, the percentile is \<open>v[floor k] + (k - floor k) * (v[ceil k] - v[floor k])\<close> with
  \<open>k = p/100 * (n - 1)\<close>; on an odd length the 50th percentile is the middle element,
  the 0th is the minimum and the 100th the maximum.
\<close>

theorem percentile_linear_interpolation:
  assumes "data \<noteq> []" "sorted data" "0 \<le> p" "p \<le> 100"
  shows "percentile data p =
           Inr (let k = p / 100 * of_int (int (length data) - 1)
                in data ! nat \<lfloor>k\<rfloor>
                   + (k - of_int \<lfloor>k\<rfloor>) * (data ! nat \<lceil>k\<rceil> - data ! nat \<lfloor>k\<rfloor>))
         \<and> (odd (length data) \<longrightarrow> percentile data 50 = Inr (data ! (length data div 2)))
         \<and> percentile data 0 = Inr (Min (set data))
         \<and> percentile data 100 = Inr (Max (set data))"
proof (intro conjI impI)
  show "percentile data p =
           Inr (let k = p / 100 * of_int (int (length data) - 1)
                in data ! nat \<lfloor>k\<rfloor>
                   + (k - of_int \<lfloor>k\<rfloor>) * (data ! nat \<lceil>k\<rceil> - data ! nat \<lfloor>k\<rfloor>))"
    using percentile_spec_formula[OF assms(1,3,4)] by (simp add: Let_def)
next
  assume "odd (length data)"
  then obtain m where m: "length data = 2 * m + 1" by (auto elim: oddE)
  have "percentile_k data 50 = of_int (int m)"
    by (simp add: percentile_k_def m)
  then have "percentile data 50 = Inr (data ! nat (int m))"
    using percentile_at_integer[OF assms(1), of 50 "int m"] by simp
  then show "percentile data 50 = Inr (data ! (length data div 2))"
    by (simp add: m)
next
  have "percentile_k data 0 = of_int 0" by (simp add: percentile_k_def)
  then have "percentile data 0 = Inr (data ! nat 0)"
    using percentile_at_integer[OF assms(1), of 0 0] by simp
  then show "percentile data 0 = Inr (Min (set data))"
    using sorted_nth_0_Min[OF assms(1,2)] by simp
next
  have "percentile_k data 100 = of_int (int (length data) - 1)"
    by (simp add: percentile_k_def)
  then have "percentile data 100 = Inr (data ! nat (int (length data) - 1))"
    using percentile_at_integer[OF assms(1), of 100 "int (length data) - 1"] by simp
  moreover have "nat (int (length data) - 1) = length data - 1" by simp
  ultimately show "percentile data 100 = Inr (Max (set data))"
    using sorted_nth_last_Max[OF assms(1,2)] by simp
qed

theorem percentile_linear_interpolation_witness:
  "[1, 2, 3, 4, 5] \<noteq> ([] :: rat list) \<and> sorted [1, 2, 3, 4, 5 :: rat]
   \<and> (0::rat) \<le> 50 \<and> (50::rat) \<le> 100
   \<and> percentile [1, 2, 3, 4, 5] 50 = Inr 3
   \<and> percentile [1, 2, 3, 4, 5] 0 = Inr 1
   \<and> percentile [1, 2, 3, 4, 5] 100 = Inr 5"
  using percentile_linear_interpolation [of "[1, 2, 3, 4, 5]" 50]
  by simp
section \<open>CostModel: the fallback rates\<close>

text \<open>
  Claim C1 says that the fallback rates are an upper bound of every rate in the table.
  They are the rates of \<open>claude-opus-4-6\<close>, and the table's entry
  \<open>claude-opus-4-1-20250805\<close> is three times as expensive on each counter: a million
  input tokens of an unknown model cost 5, those of that model cost 15.
\<close>

theorem default_pricing_below_opus_4_1:
  "DEFAULT_PRICING =
     \<lparr>price_input = 5, price_output = 25, price_cache_5m = 25 / 4,
      price_cache_1h = 10, price_cache_read = 1 / 2\<rparr>
   \<and> map_of MODEL_PRICING ''claude-opus-4-1-20250805'' =
       Some \<lparr>price_input = 15, price_output = 75, price_cache_5m = 75 / 4,
             price_cache_1h = 30, price_cache_read = 3 / 2\<rparr>
   \<and> calculate_cost [(JStr ''some-future-model'', zero_counts\<lparr>n_input := 1000000\<rparr>)] = 5
   \<and> calculate_cost [(JStr ''claude-opus-4-1-20250805'', zero_counts\<lparr>n_input := 1000000\<rparr>)]
       = 15"
  by (simp add: DEFAULT_PRICING_def MODEL_PRICING_def calculate_cost_def pricing_for_def
      zero_counts_def)

section \<open>PathDecoder: the tree \<open>/a/b-c/d\<close>\<close>

text \<open>
  Claim C8. With a filesystem in which \<open>/a\<close> and \<open>/a/b-c\<close> exist and \<open>/a/b\<close> does
  not, decoding \<open>-a-b-c-d\<close> gives \<open>/a/b-c/d\<close>: the walk joins \<open>b\<close> and \<open>c\<close> again
  because \<open>/a/b\<close> is absent and \<open>/a/b-c\<close> is there. (The last segment is taken as it
  is, whether \<open>/a/b-c/d\<close> exists or not.)
\<close>

theorem decode_rejoins_hyphenated_segment:
  assumes "ex [''a'']" "\<not> ex [''a'', ''b'']" "ex [''a'', ''b-c'']"
  shows "decode_project_path ex ''-a-b-c-d'' = [''a'', ''b-c'', ''d'']"
proof -
  let ?parts = "[''a'', ''b'', ''c'', ''d'']"
  have j: "joinpath [] ''a'' = [''a'']" "joinpath [''a''] ''b'' = [''a'', ''b'']"
    "joinpath [''a''] ''b-c'' = [''a'', ''b-c'']"
    "joinpath [''a'', ''b-c''] ''d'' = [''a'', ''b-c'', ''d'']"
    by (simp_all add: joinpath_def path_parts_def starts_with_def)
  have e0: "extend_candidate ex [] ?parts ''a'' 1 = (''a'', 1)"
    using assms(1) by (subst extend_candidate.simps) (simp add: j eval_nat_numeral)
  have e2: "extend_candidate ex [''a''] ?parts ''b-c'' 3 = (''b-c'', 3)"
    using assms(3) by (subst extend_candidate.simps) (simp add: j eval_nat_numeral)
  have e1: "extend_candidate ex [''a''] ?parts ''b'' 2 = (''b-c'', 3)"
    using assms(2) e2 by (subst extend_candidate.simps) (simp add: j eval_nat_numeral)
  have e3: "extend_candidate ex [''a'', ''b-c''] ?parts ''d'' 4 = (''d'', 4)"
    by (subst extend_candidate.simps) (simp add: eval_nat_numeral)
  have d4: "decode_loop ex ?parts [''a'', ''b-c'', ''d''] 4 = [''a'', ''b-c'', ''d'']"
    by (subst decode_loop.simps) (simp add: eval_nat_numeral)
  have d3: "decode_loop ex ?parts [''a'', ''b-c''] 3 = [''a'', ''b-c'', ''d'']"
    using e3 d4 by (subst decode_loop.simps) (simp add: j eval_nat_numeral)
  have d1: "decode_loop ex ?parts [''a''] 1 = [''a'', ''b-c'', ''d'']"
    using e1 d3 by (subst decode_loop.simps) (simp add: j eval_nat_numeral)
  have d0: "decode_loop ex ?parts [] 0 = [''a'', ''b-c'', ''d'']"
    using e0 d1 by (subst decode_loop.simps) (simp add: j eval_nat_numeral)
  show ?thesis
    using d0 by (simp add: decode_project_path_def)
qed

theorem decode_rejoins_hyphenated_segment_witness:
  "tree_abcd [''a''] \<and> \<not> tree_abcd [''a'', ''b''] \<and> tree_abcd [''a'', ''b-c'']
   \<and> decode_project_path tree_abcd ''-a-b-c-d'' = [''a'', ''b-c'', ''d'']"
  using decode_rejoins_hyphenated_segment [of tree_abcd]
  by (simp add: tree_abcd_def)
section \<open>StatisticsEngine: the rows kept and the outliers\<close>

lemma read_rows_numeric:
  assumes "\<forall>r \<in> set h. h_total_cost r \<noteq> None"
  shows "read_rows h = Inr (map (\<lambda>r. (r, the (h_total_cost r))) (filter positive_cost h))"
  using assms by (induction h) (auto simp: positive_cost_def)

lemma read_rows_filter_positive:
  assumes "\<forall>r \<in> set h. h_total_cost r \<noteq> None"
  shows "read_rows (filter positive_cost h) = read_rows h"
proof -
  have "\<forall>r \<in> set (filter positive_cost h). h_total_cost r \<noteq> None"
    using assms by simp
  then show ?thesis
    by (simp add: read_rows_numeric[OF assms] read_rows_numeric)
qed

lemma read_rows_positive:
  "read_rows h = Inr rows \<Longrightarrow> (r, c) \<in> set rows \<Longrightarrow> 0 < c \<and> h_total_cost r = Some c"
proof (induction h arbitrary: rows)
  case Nil
  then show ?case by simp
next
  case (Cons x xs)
  then show ?case
    by (auto simp: ebind_eq_Inr split: option.splits if_splits)
qed

lemma mean_nonempty: "xs \<noteq> [] \<Longrightarrow> mean xs = Inr (sum_list xs / of_nat (length xs))"
  by (simp add: mean_def)

lemma last_n_nonempty: "xs \<noteq> [] \<Longrightarrow> 0 < k \<Longrightarrow> last_n k xs \<noteq> []"
  by (cases xs) (auto simp: last_n_def)

lemma last_10_nonempty: "xs \<noteq> [] \<Longrightarrow> last_10 xs \<noteq> []"
  by (simp add: last_10_def last_n_nonempty)

lemma last_20_nonempty: "xs \<noteq> [] \<Longrightarrow> last_20 xs \<noteq> []"
  by (simp add: last_20_def last_n_nonempty)

lemma prev_10_nonempty: "20 \<le> length xs \<Longrightarrow> prev_10 xs \<noteq> []"
  by (auto simp: prev_10_def)

lemma trend_of_returns: "\<exists>t. trend_of costs a = Inr t"
  by (simp add: trend_of_def mean_nonempty prev_10_nonempty)


lemma percentile_returns:
  assumes "data \<noteq> []" "0 \<le> p" "p \<le> 100"
  shows "\<exists>v. percentile data p = Inr v"
  using percentile_value[OF assms] by blast

lemma sort_nonempty: "xs \<noteq> [] \<Longrightarrow> sort xs \<noteq> ([] :: rat list)"
  by (metis length_sort length_0_conv)

lemma workflow_stat_of_returns:
  assumes "cs \<noteq> []"
  shows "\<exists>ws. workflow_stat_of cs = Inr ws"
proof -
  obtain p50 where p50: "percentile (sort cs) 50 = Inr p50"
    using percentile_returns[OF sort_nonempty[OF assms], of 50] by auto
  obtain p75 where p75: "percentile (sort cs) 75 = Inr p75"
    using percentile_returns[OF sort_nonempty[OF assms], of 75] by auto
  obtain p90 where p90: "percentile (sort cs) 90 = Inr p90"
    using percentile_returns[OF sort_nonempty[OF assms], of 90] by auto
  show ?thesis
    by (simp add: workflow_stat_of_def Let_def mean_nonempty[OF assms]
        mean_nonempty[OF last_10_nonempty[OF assms]] p50 p75 p90)
qed

lemma workflow_stats_of_returns: "\<exists>out. workflow_stats_of d = Inr out"
proof (induction d)
  case Nil
  then show ?case by simp
next
  case (Cons a d)
  obtain w cs where a: "a = (w, cs)" by (cases a)
  from Cons obtain out where out: "workflow_stats_of d = Inr out" by blast
  show ?case
  proof (cases "cs = []")
    case True
    then show ?thesis by (simp add: a out)
  next
    case False
    then obtain ws where "workflow_stat_of cs = Inr ws"
      using workflow_stat_of_returns by blast
    then show ?thesis by (simp add: a out False)
  qed
qed

lemma compute_stats_value:
  assumes "rows \<noteq> []"
  shows "\<exists>p75 p90 avg20 s.
           percentile (sort (map snd rows)) 75 = Inr p75
         \<and> percentile (sort (map snd rows)) 90 = Inr p90
         \<and> mean (last_20 (map snd rows)) = Inr avg20
         \<and> compute_stats rows = Inr s
         \<and> st_warning s = py_round (warning_threshold p75 avg20) 2
         \<and> st_high s = py_round (high_threshold p90 avg20) 2
         \<and> st_recent_outliers s = find_recent_outliers rows (warning_threshold p75 avg20) avg20"
proof -
  let ?costs = "map snd rows"
  have ne: "?costs \<noteq> []" using assms by simp
  have sne: "sort ?costs \<noteq> []" by (rule sort_nonempty[OF ne])
  obtain p50 where p50: "percentile (sort ?costs) 50 = Inr p50"
    using percentile_returns[OF sne, of 50] by auto
  obtain p75 where p75: "percentile (sort ?costs) 75 = Inr p75"
    using percentile_returns[OF sne, of 75] by auto
  obtain p90 where p90: "percentile (sort ?costs) 90 = Inr p90"
    using percentile_returns[OF sne, of 90] by auto
  obtain p95 where p95: "percentile (sort ?costs) 95 = Inr p95"
    using percentile_returns[OF sne, of 95] by auto
  obtain a where a: "mean ?costs = Inr a" by (simp add: mean_nonempty[OF ne])
  obtain a10 where a10: "mean (last_10 ?costs) = Inr a10"
    by (simp add: mean_nonempty[OF last_10_nonempty[OF ne]])
  obtain a20 where a20: "mean (last_20 ?costs) = Inr a20"
    by (simp add: mean_nonempty[OF last_20_nonempty[OF ne]])
  obtain t where t: "trend_of ?costs a10 = Inr t"
    using trend_of_returns by blast
  obtain w where w: "workflow_stats_of (group_by_workflow rows) = Inr w"
    using workflow_stats_of_returns by blast
  show ?thesis
    by (simp add: compute_stats_def Let_def p50 p75 p90 p95 a a10 a20 t w)
qed

lemma mean_positive:
  assumes "xs \<noteq> []" "\<forall>x \<in> set xs. (0::rat) < x" "mean xs = Inr a"
  shows "0 < a"
proof -
  have "0 < sum_list xs"
    using assms(1,2) by (induction xs) (auto intro: add_pos_nonneg sum_list_nonneg less_imp_le)
  then show ?thesis
    using assms by (auto simp: mean_def)
qed

lemma set_last_n: "set (last_n k xs) \<subseteq> set xs"
  by (simp add: last_n_def set_drop_subset)

lemma set_last_20: "set (last_20 xs) \<subseteq> set xs"
  using set_last_n[of 20 xs] by (auto simp: last_20_def)


text \<open>
  Claim C7. Rows of zero total cost are excluded from every statistic: on a history
  whose cost cells are all numbers, the whole snapshot (averages, percentiles,
  thresholds, trend, breakdowns) is the one computed over the positive-cost rows alone;
  one zero-cost row and nine rows of 1.00 give the overall average 1.00.
\<close>

theorem zero_cost_rows_excluded:
  assumes "\<forall>r \<in> set h. h_total_cost r \<noteq> None"
  shows "generate_stats (Some h) = generate_stats (Some (filter positive_cost h))
         \<and> map_sum id (map_option st_avg_overall) (generate_stats (Some history_one_zero))
             = Inr (Some 1)"
proof
  show "generate_stats (Some h) = generate_stats (Some (filter positive_cost h))"
    by (simp add: generate_stats_def read_rows_filter_positive[OF assms])
  show "map_sum id (map_option st_avg_overall) (generate_stats (Some history_one_zero))
          = Inr (Some 1)"
    by code_simp
qed


theorem zero_cost_rows_excluded_witness:
  "map h_total_cost history_one_zero = Some 0 # replicate 9 (Some 1)
   \<and> length history_one_zero = 10
   \<and> length (filter positive_cost history_one_zero) = 9
   \<and> generate_stats (Some history_one_zero)
       = generate_stats (Some (filter positive_cost history_one_zero))"
  using zero_cost_rows_excluded [of history_one_zero]
  by (simp add: history_one_zero_def positive_cost_def)




section \<open>UsageParser: what the loop keeps\<close>

lemma dict_get_Inr: "dict_get d k dflt = Inr v \<Longrightarrow> \<exists>kvs. d = JObj kvs \<and> v = (case map_of kvs k of Some x \<Rightarrow> x | None \<Rightarrow> dflt)"
  by (cases d) auto

lemma collect_texts_value:
  "collect_texts bs acc fum = Inr (texts, fum') \<Longrightarrow> texts = acc @ List.map_filter block_text bs"
proof (induction bs acc fum rule: collect_texts.induct)
  case (1 texts fum)
  then show ?case by (simp add: List.map_filter_simps)
next
  case (2 kvs bs texts fum)
  then show ?case
    by (auto simp: List.map_filter_simps block_text_def ebind_eq_Inr
        split: if_splits option.splits)
qed (auto simp: List.map_filter_simps block_text_def)

lemma detect_in_texts_value:
  "detect_in_texts texts = Inr found \<Longrightarrow>
     map_option fst found =
       (case List.map_filter text_workflow texts of [] \<Rightarrow> None | w # _ \<Rightarrow> Some w)"
proof (induction texts rule: detect_in_texts.induct)
  case 1
  then show ?case by (simp add: List.map_filter_simps)
next
  case (2 s ts)
  then show ?case
    by (auto simp: List.map_filter_simps text_workflow_def Let_def
        split: prod.splits if_splits)
qed simp_all

lemma detect_in_texts_nonempty:
  "detect_in_texts texts = Inr (Some (name, story)) \<Longrightarrow> name \<noteq> []"
  by (induction texts rule: detect_in_texts.induct)
     (auto split: prod.splits if_splits)


lemma process_user_fields:
  assumes "process_user st d = Inr st'"
  shows "first_ts st' = first_ts st" "last_ts st' = last_ts st"
    "tokens_by_model st' = tokens_by_model st" "msg_count st' = msg_count st"
  using assms
  by (auto simp: process_user_def ebind_eq_Inr split: option.splits prod.splits)

lemma process_assistant_fields:
  assumes "process_assistant st d = Inr st'"
  shows "first_ts st' = first_ts st" "last_ts st' = last_ts st"
    "detected_workflow st' = detected_workflow st"
  using assms
  by (auto simp: process_assistant_def ebind_eq_Inr Let_def split: prod.splits)

lemma note_timestamp_fields:
  "detected_workflow (note_timestamp st ts) = detected_workflow st"
  "first_user_msg (note_timestamp st ts) = first_user_msg st"
  by (simp_all add: note_timestamp_def)

lemma process_record_timestamps:
  assumes "process_record st d = Inr st'"
  shows "first_ts st' = first_ts (note_timestamp st (timestamp_of d))"
    and "last_ts st' = last_ts (note_timestamp st (timestamp_of d))"
proof -
  from assms obtain ts ty st2 where
    ts: "dict_get d ''timestamp'' JNull = Inr ts"
    and st2: "(if ty = JStr ''user'' then process_user (note_timestamp st ts) d
               else Inr (note_timestamp st ts)) = Inr st2"
    and fin: "(if ty = JStr ''assistant'' then process_assistant st2 d else Inr st2) = Inr st'"
    by (auto simp: process_record_def ebind_eq_Inr)
  have t: "timestamp_of d = ts" by (simp add: timestamp_of_def ts)
  have a: "first_ts st2 = first_ts (note_timestamp st ts)"
    "last_ts st2 = last_ts (note_timestamp st ts)"
    using st2 process_user_fields(1,2) by (auto split: if_splits)
  have b: "first_ts st' = first_ts st2" "last_ts st' = last_ts st2"
    using fin process_assistant_fields(1,2) by (auto split: if_splits)
  show "first_ts st' = first_ts (note_timestamp st (timestamp_of d))"
    and "last_ts st' = last_ts (note_timestamp st (timestamp_of d))"
    using a b t by simp_all
qed

lemma process_user_workflow:
  assumes "process_user st d = Inr st'" "d = JObj kvs"
    "map_of kvs ''type'' = Some (JStr ''user'')"
  shows "detected_workflow st' =
           (if detected_workflow st \<noteq> [] then detected_workflow st
            else first_locked_workflow (record_texts d))"
proof -
  from assms(1) obtain msg content texts fum found where
    msg: "dict_get d ''message'' (JObj []) = Inr msg"
    and content: "dict_get msg ''content'' (JStr []) = Inr content"
    and texts: "(case content of
              JStr s \<Rightarrow>
                Inr ([content],
                     if \<not> truthy (first_user_msg st) then JStr (take 150 s)
                     else first_user_msg st)
            | JArr blocks \<Rightarrow> collect_texts blocks [] (first_user_msg st)
            | _ \<Rightarrow> Inr ([], first_user_msg st)) = Inr (texts, fum)"
    and found: "(if detected_workflow st = [] then detect_in_texts texts else Inr None) = Inr found"
    and st': "st' = (case found of
            None \<Rightarrow> st\<lparr>first_user_msg := fum\<rparr>
          | Some (name, story) \<Rightarrow>
              st\<lparr>first_user_msg := fum, detected_workflow := name,
                 detected_story := story\<rparr>)"
    by (auto simp: process_user_def ebind_eq_Inr)
  have rt: "record_texts d = texts"
  proof -
    obtain m where m: "msg = JObj m" using content by (cases msg) auto
    have c: "content = (case map_of m ''content'' of Some x \<Rightarrow> x | None \<Rightarrow> JStr [])"
      using content m by simp
    have mm: "msg = (case map_of kvs ''message'' of Some x \<Rightarrow> x | None \<Rightarrow> JObj [])"
      using msg assms(2) by simp
    show ?thesis
    proof (cases content)
      case (JArr blocks)
      then have "texts = List.map_filter block_text blocks"
        using texts collect_texts_value by fastforce
      then show ?thesis
        using JArr c mm m assms(2,3)
        by (auto simp: record_texts_def split: option.splits json.splits)
    qed (use texts c mm m assms(2,3) in
          \<open>auto simp: record_texts_def split: option.splits json.splits\<close>)
  qed
  show ?thesis
  proof (cases "detected_workflow st = []")
    case False
    then show ?thesis using found st' by auto
  next
    case True
    then have d: "detect_in_texts texts = Inr found" using found by simp
    show ?thesis
      using detect_in_texts_value[OF d] True st' rt
      by (auto simp: first_locked_workflow_def split: option.splits list.splits)
  qed
qed


lemma process_record_workflow:
  assumes "process_record st d = Inr st'"
  shows "detected_workflow st' =
           (if detected_workflow st \<noteq> [] then detected_workflow st
            else first_locked_workflow (record_texts d))"
proof -
  from assms obtain ts ty st2 where
    ts: "dict_get d ''timestamp'' JNull = Inr ts"
    and ty: "dict_get d ''type'' JNull = Inr ty"
    and st2: "(if ty = JStr ''user'' then process_user (note_timestamp st ts) d
               else Inr (note_timestamp st ts)) = Inr st2"
    and fin: "(if ty = JStr ''assistant'' then process_assistant st2 d else Inr st2) = Inr st'"
    by (auto simp: process_record_def ebind_eq_Inr)
  obtain kvs where d: "d = JObj kvs" using ts by (cases d) auto
  have tyv: "ty = (case map_of kvs ''type'' of Some x \<Rightarrow> x | None \<Rightarrow> JNull)"
    using ty d by simp
  have b: "detected_workflow st' = detected_workflow st2"
    using fin process_assistant_fields(3) by (auto split: if_splits)
  show ?thesis
  proof (cases "ty = JStr ''user''")
    case True
    then have u: "map_of kvs ''type'' = Some (JStr ''user'')"
      using tyv by (auto split: option.splits)
    have "process_user (note_timestamp st ts) d = Inr st2" using st2 True by simp
    from process_user_workflow[OF this d u] show ?thesis
      by (simp add: b note_timestamp_fields)
  next
    case False
    then have "map_of kvs ''type'' \<noteq> Some (JStr ''user'')" using tyv by auto
    then have "record_texts d = []" by (simp add: record_texts_def d)
    moreover have "detected_workflow st2 = detected_workflow st"
      using st2 False by (auto simp: note_timestamp_fields)
    ultimately show ?thesis
      by (simp add: b first_locked_workflow_def List.map_filter_simps)
  qed
qed

lemma map_filter_append:
  "List.map_filter f (xs @ ys) = List.map_filter f xs @ List.map_filter f ys"
  by (simp add: List.map_filter_def)

lemma text_workflow_nonempty: "text_workflow t = Some w \<Longrightarrow> w \<noteq> []"
  by (auto simp: text_workflow_def Let_def split: json.splits if_splits)

lemma first_locked_workflow_append:
  "first_locked_workflow (xs @ ys) =
     (if first_locked_workflow xs \<noteq> [] then first_locked_workflow xs
      else first_locked_workflow ys)"
proof (cases "List.map_filter text_workflow xs")
  case Nil
  then show ?thesis by (simp add: first_locked_workflow_def map_filter_append)
next
  case (Cons w ws)
  then have "w \<in> set (List.map_filter text_workflow xs)" by simp
  then have "w \<noteq> []"
    by (auto simp: List.map_filter_def dest: text_workflow_nonempty)
  then show ?thesis using Cons by (simp add: first_locked_workflow_def map_filter_append)
qed

lemma decoded_Nil: "decoded loads [] = []"
  by (simp add: decoded_def List.map_filter_simps)

lemma decoded_Cons:
  "decoded loads (l # ls) =
     (if strip l = [] then decoded loads ls
      else case loads (strip l) of None \<Rightarrow> decoded loads ls | Some d \<Rightarrow> d # decoded loads ls)"
  by (simp add: decoded_def List.map_filter_simps split: option.splits)

lemma parse_lines_skip:
  "strip l = [] \<or> loads (strip l) = None \<Longrightarrow>
     parse_lines loads st (l # ls) = parse_lines loads st ls"
  by auto

lemma parse_lines_step:
  "strip l \<noteq> [] \<Longrightarrow> loads (strip l) = Some d \<Longrightarrow>
     parse_lines loads st (l # ls)
       = ebind (process_record st d) (\<lambda>st'. parse_lines loads st' ls)"
  by simp

lemma parse_lines_workflow:
  "parse_lines loads st lines = Inr st' \<Longrightarrow>
     detected_workflow st' =
       (if detected_workflow st \<noteq> [] then detected_workflow st
        else first_locked_workflow (user_texts (decoded loads lines)))"
proof (induction lines arbitrary: st)
  case Nil
  then show ?case
    by (simp add: decoded_Nil user_texts_def first_locked_workflow_def List.map_filter_simps)
next
  case (Cons l ls)
  show ?case
  proof (cases "strip l = [] \<or> loads (strip l) = None")
    case True
    then have "parse_lines loads st ls = Inr st'"
      using Cons.prems parse_lines_skip[of l loads st ls] by simp
    from Cons.IH[OF this] show ?thesis using True by (auto simp: decoded_Cons)
  next
    case False
    then obtain d where d: "strip l \<noteq> []" "loads (strip l) = Some d" by auto
    then obtain st1 where s1: "process_record st d = Inr st1"
      and rest: "parse_lines loads st1 ls = Inr st'"
      using Cons.prems parse_lines_step[of l loads d st ls] by (auto simp: ebind_eq_Inr)
    have dec: "user_texts (decoded loads (l # ls)) = record_texts d @ user_texts (decoded loads ls)"
      using d by (simp add: decoded_Cons user_texts_def)
    show ?thesis
      using Cons.IH[OF rest] process_record_workflow[OF s1]
      by (simp add: dec first_locked_workflow_append)
  qed
qed

lemma parse_lines_timestamps:
  "parse_lines loads st lines = Inr st' \<Longrightarrow>
     first_ts st' =
       (if truthy (first_ts st) then first_ts st
        else case timestamps_seen loads lines of [] \<Rightarrow> first_ts st | t # _ \<Rightarrow> t)
     \<and> last_ts st' =
       (if timestamps_seen loads lines = [] then last_ts st
        else last (timestamps_seen loads lines))"
proof (induction lines arbitrary: st)
  case Nil
  then show ?case by (simp add: timestamps_seen_def decoded_Nil)
next
  case (Cons l ls)
  show ?case
  proof (cases "strip l = [] \<or> loads (strip l) = None")
    case True
    then have "parse_lines loads st ls = Inr st'"
      using Cons.prems parse_lines_skip[of l loads st ls] by simp
    from Cons.IH[OF this] show ?thesis
      using True by (auto simp: decoded_Cons timestamps_seen_def)
  next
    case False
    then obtain d where d: "strip l \<noteq> []" "loads (strip l) = Some d" by auto
    then obtain st1 where s1: "process_record st d = Inr st1"
      and rest: "parse_lines loads st1 ls = Inr st'"
      using Cons.prems parse_lines_step[of l loads d st ls] by (auto simp: ebind_eq_Inr)
    have seen: "timestamps_seen loads (l # ls) =
                  (if truthy (timestamp_of d) then [timestamp_of d] else [])
                  @ timestamps_seen loads ls"
      using d by (simp add: decoded_Cons timestamps_seen_def)
    show ?thesis
      using Cons.IH[OF rest] process_record_timestamps[OF s1]
      by (auto simp: seen note_timestamp_def split: list.splits)
  qed
qed

section \<open>UsageParser: first and last timestamp\<close>

lemma sorted_hd_Min:
  assumes "ss \<noteq> []" "sorted ss"
  shows "hd ss = Min (set (ss :: 'a::linorder list))"
  using sorted_nth_0_Min[OF assms] assms(1) by (simp add: hd_conv_nth)

lemma sorted_last_Max:
  assumes "ss \<noteq> []" "sorted ss"
  shows "last ss = Max (set (ss :: 'a::linorder list))"
  using sorted_nth_last_Max[OF assms] assms(1) by (simp add: last_conv_nth)

text \<open>
  Claim C5 as stated fails when the records are out of order: the parser keeps the first
  and the last timestamp it meets. Here the later timestamp comes first in the log, and
  \<open>first_ts\<close> is the later one, \<open>last_ts\<close> the earlier one.
\<close>

theorem timestamps_out_of_order_counterexample:
  "map_sum id first_ts (parse_jsonl example_loads [late_line, early_line])
     = Inr (JStr ''2026-02-02T10:00:00Z'')
   \<and> map_sum id last_ts (parse_jsonl example_loads [late_line, early_line])
       = Inr (JStr ''2026-02-01T10:00:00Z'')
   \<and> timestamps_seen example_loads [late_line, early_line]
       = [JStr ''2026-02-02T10:00:00Z'', JStr ''2026-02-01T10:00:00Z'']
   \<and> ''2026-02-01T10:00:00Z'' < ''2026-02-02T10:00:00Z''"
  by code_simp

text \<open>
  Claim C5, amended. When the parser returns, \<open>first_ts\<close> is the timestamp of the first
  decoded record, in log order, that carries a non-empty one, and \<open>last_ts\<close> that of the
  last such record (none when no record has one), whatever the type of those records;
  when the timestamps appear in non-decreasing order these are the minimum and the
  maximum of all timestamps seen.
\<close>

theorem timestamps_first_and_last_seen:
  assumes "parse_jsonl loads lines = Inr res"
  shows "first_ts res = (case timestamps_seen loads lines of [] \<Rightarrow> JNull | t # _ \<Rightarrow> t)
         \<and> last_ts res = (case timestamps_seen loads lines of [] \<Rightarrow> JNull | t # ts \<Rightarrow> last (t # ts))
         \<and> (\<forall>ss. ss \<noteq> [] \<and> sorted ss \<and> timestamps_seen loads lines = map JStr ss
               \<longrightarrow> first_ts res = JStr (Min (set ss)) \<and> last_ts res = JStr (Max (set ss)))"
proof -
  have p: "parse_lines loads initial_result lines = Inr res"
    using assms by (simp add: parse_jsonl_def)
  have f: "first_ts res = (case timestamps_seen loads lines of [] \<Rightarrow> JNull | t # _ \<Rightarrow> t)"
    using parse_lines_timestamps[OF p] by (simp add: initial_result_def split: list.splits)
  have l: "last_ts res = (case timestamps_seen loads lines of [] \<Rightarrow> JNull | t # ts \<Rightarrow> last (t # ts))"
    using parse_lines_timestamps[OF p] by (simp add: initial_result_def split: list.splits)
  have m: "first_ts res = JStr (Min (set ss)) \<and> last_ts res = JStr (Max (set ss))"
    if ne: "ss \<noteq> []" and so: "sorted ss"
      and eq: "timestamps_seen loads lines = map JStr ss" for ss
  proof -
    obtain s rest where ss: "ss = s # rest" using ne by (cases ss) auto
    have "first_ts res = JStr (hd ss)" using f eq ss by simp
    moreover have "last_ts res = JStr (last ss)"
      using l eq ss by (simp add: last_map)
    ultimately show ?thesis
      using sorted_hd_Min[OF ne so] sorted_last_Max[OF ne so] by simp
  qed
  show ?thesis using f l m by blast
qed

theorem timestamps_first_and_last_seen_witness:
  "parse_jsonl example_loads [early_line, sonnet_line, late_line]
     = Inr (initial_result
              \<lparr>tokens_by_model :=
                 [(JStr ''sonnet'', zero_counts\<lparr>n_input := 1000, n_output := 500, n_messages := 1\<rparr>)],
               first_ts := JStr ''2026-02-01T10:00:00Z'',
               last_ts := JStr ''2026-02-02T10:00:00Z'', msg_count := 1\<rparr>)
   \<and> timestamps_seen example_loads [early_line, sonnet_line, late_line]
       = map JStr [''2026-02-01T10:00:00Z'', ''2026-02-02T10:00:00Z'']
   \<and> sorted [''2026-02-01T10:00:00Z'', ''2026-02-02T10:00:00Z'']
   \<and> Min (set [''2026-02-01T10:00:00Z'', ''2026-02-02T10:00:00Z'']) = ''2026-02-01T10:00:00Z''
   \<and> Max (set [''2026-02-01T10:00:00Z'', ''2026-02-02T10:00:00Z'']) = ''2026-02-02T10:00:00Z''"
proof -
  have p: "parse_jsonl example_loads [early_line, sonnet_line, late_line]
     = Inr (initial_result
              \<lparr>tokens_by_model :=
                 [(JStr ''sonnet'', zero_counts\<lparr>n_input := 1000, n_output := 500, n_messages := 1\<rparr>)],
               first_ts := JStr ''2026-02-01T10:00:00Z'',
               last_ts := JStr ''2026-02-02T10:00:00Z'', msg_count := 1\<rparr>)"
    by code_simp
  have s: "timestamps_seen example_loads [early_line, sonnet_line, late_line]
       = map JStr [''2026-02-01T10:00:00Z'', ''2026-02-02T10:00:00Z'']"
    by code_simp
  have o: "sorted [''2026-02-01T10:00:00Z'', ''2026-02-02T10:00:00Z'']"
    by code_simp
  show ?thesis
    using timestamps_first_and_last_seen [OF p] p s o by auto
qed

section \<open>UsageParser: workflow detection\<close>




section \<open>UsageParser: lines that do not decode\<close>

lemma parse_lines_filter:
  "parse_lines loads st (filter (decodable loads) lines) = parse_lines loads st lines"
proof (induction lines arbitrary: st)
  case Nil
  then show ?case by simp
next
  case (Cons l ls)
  show ?case
  proof (cases "decodable loads l")
    case True
    then obtain d where d: "strip l \<noteq> []" "loads (strip l) = Some d"
      by (auto simp: decodable_def)
    show ?thesis
      using True Cons.IH d by simp
  next
    case False
    then have "strip l = [] \<or> loads (strip l) = None" by (simp add: decodable_def)
    then show ?thesis
      using False Cons.IH by (simp add: parse_lines_skip del: parse_lines.simps)
  qed
qed

lemma num_add_ok: "is_number v \<Longrightarrow> \<exists>r. num_add x v = Inr r"
  by (cases v) auto

lemma number_field_add:
  "number_field kvs k \<Longrightarrow>
     \<exists>r. ebind (dict_get (JObj kvs) k (JNum 0)) (num_add x) = Inr r"
  by (auto simp: number_field_def dest: num_add_ok split: option.splits)

lemma collect_texts_ok:
  "list_all text_block_ok bs \<Longrightarrow> \<forall>t \<in> set acc. \<exists>s. t = JStr s \<Longrightarrow>
     \<exists>texts fum'. collect_texts bs acc fum = Inr (texts, fum') \<and> (\<forall>t \<in> set texts. \<exists>s. t = JStr s)"
proof (induction bs acc fum rule: collect_texts.induct)
  case (1 texts fum)
  then show ?case by simp
next
  case (2 kvs bs texts fum)
  then show ?case
    by (auto simp: text_block_ok_def split: if_splits option.splits json.splits)
qed (auto simp: text_block_ok_def)

lemma detect_in_texts_ok:
  "\<forall>t \<in> set texts. \<exists>s. t = JStr s \<Longrightarrow> \<exists>found. detect_in_texts texts = Inr found"
  by (induction texts rule: detect_in_texts.induct) (auto split: prod.splits)

lemma collect_task_calls_ok:
  "list_all task_block_ok bs \<Longrightarrow> \<exists>calls. collect_task_calls bs = Inr calls"
proof (induction bs rule: collect_task_calls.induct)
  case 1
  then show ?case by simp
next
  case (2 kvs bs)
  then show ?case
    by (auto simp: task_block_ok_def split: if_splits option.splits json.splits)
qed (auto simp: task_block_ok_def)


lemma process_user_ok:
  assumes "user_message_ok m" "map_of kvs ''message'' = Some (JObj m)"
  shows "\<exists>st'. process_user st (JObj kvs) = Inr st'"
proof -
  let ?content = "case map_of m ''content'' of Some v \<Rightarrow> v | None \<Rightarrow> JStr []"
  have "\<exists>texts fum. (case ?content of
              JStr s \<Rightarrow>
                Inr ([?content],
                     if \<not> truthy (first_user_msg st) then JStr (take 150 s)
                     else first_user_msg st)
            | JArr blocks \<Rightarrow> collect_texts blocks [] (first_user_msg st)
            | _ \<Rightarrow> Inr ([], first_user_msg st)) = Inr (texts, fum)
          \<and> (\<forall>t \<in> set texts. \<exists>s. t = JStr s)"
  proof (cases ?content)
    case (JArr blocks)
    then have "list_all text_block_ok blocks"
      using assms(1) by (auto simp: user_message_ok_def split: option.splits)
    from collect_texts_ok[OF this, of "[]" "first_user_msg st"] JArr show ?thesis by simp
  qed simp_all
  then obtain texts fum where t: "(case ?content of
              JStr s \<Rightarrow>
                Inr ([?content],
                     if \<not> truthy (first_user_msg st) then JStr (take 150 s)
                     else first_user_msg st)
            | JArr blocks \<Rightarrow> collect_texts blocks [] (first_user_msg st)
            | _ \<Rightarrow> Inr ([], first_user_msg st)) = Inr (texts, fum)"
    and strs: "\<forall>t \<in> set texts. \<exists>s. t = JStr s" by blast
  obtain found where f: "detect_in_texts texts = Inr found"
    using detect_in_texts_ok[OF strs] by blast
  show ?thesis
    by (simp add: process_user_def assms(2) t f)
qed

lemma process_user_no_message:
  assumes "map_of kvs ''message'' = None"
  shows "\<exists>st'. process_user st (JObj kvs) = Inr st'"
  by (simp add: process_user_def assms detect_workflow_from_text_def)

lemma add_cache_creation_ok:
  assumes "cache_detail_ok usage"
  shows "\<exists>p. add_cache_creation entry (JObj usage) = Inr p"
proof (cases "map_of usage ''cache_creation''")
  case None
  then have "number_field usage ''cache_creation_input_tokens''"
    using assms by (simp add: cache_detail_ok_def)
  from number_field_add[OF this, of "n_cache_1h entry"] None show ?thesis
    by (auto simp: add_cache_creation_def ebind_eq_Inr)
next
  case (Some cd)
  show ?thesis
  proof (cases "truthy cd")
    case True
    then obtain c where c: "cd = JObj c" "number_field c ''ephemeral_5m_input_tokens''"
      "number_field c ''ephemeral_1h_input_tokens''"
      using assms Some by (auto simp: cache_detail_ok_def split: json.splits)
    from number_field_add[OF c(2), of "n_cache_5m entry"]
      number_field_add[OF c(3), of "n_cache_1h entry"] Some True c(1)
    show ?thesis
      by (auto simp: add_cache_creation_def ebind_eq_Inr)
  next
    case False
    then have "number_field usage ''cache_creation_input_tokens''"
      using assms Some by (simp add: cache_detail_ok_def)
    from number_field_add[OF this, of "n_cache_1h entry"] Some False show ?thesis
      by (auto simp: add_cache_creation_def ebind_eq_Inr)
  qed
qed

lemma dict_key_ok: "hashable v \<Longrightarrow> \<exists>k. dict_key v = Inr k"
  by (cases v) (auto simp: hashable_def)

lemma number_field_get:
  "number_field kvs k \<Longrightarrow> \<exists>v. dict_get (JObj kvs) k (JNum 0) = Inr v \<and> is_number v"
  by (auto simp: number_field_def split: option.splits)

lemma assistant_message_ok_empty: "assistant_message_ok []"
  by (simp add: assistant_message_ok_def usage_ok_def number_field_def cache_detail_ok_def
      hashable_def)

lemma process_assistant_ok:
  assumes "assistant_message_ok m" "dict_get (JObj kvs) ''message'' (JObj []) = Inr (JObj m)"
  shows "\<exists>st'. process_assistant st (JObj kvs) = Inr st'"
proof -
  obtain u where u: "dict_get (JObj m) ''usage'' (JObj []) = Inr (JObj u)"
    and nf: "number_field u ''input_tokens''" "number_field u ''output_tokens''"
      "number_field u ''cache_read_input_tokens''"
    and cd: "cache_detail_ok u"
    using assms(1)
    by (auto simp: assistant_message_ok_def usage_ok_def split: option.splits json.splits)
  obtain model key where mo: "dict_get (JObj m) ''model'' (JStr ''unknown'') = Inr model"
    and key: "dict_key model = Inr key"
    using assms(1) dict_key_ok
    by (fastforce simp: assistant_message_ok_def split: option.splits)
  define entry where
    "entry = (case map_of (tokens_by_model st) key of Some e \<Rightarrow> e | None \<Rightarrow> zero_counts)"
  obtain v1 i where v1: "dict_get (JObj u) ''input_tokens'' (JNum 0) = Inr v1"
    and i: "num_add (n_input entry) v1 = Inr i"
    using number_field_get[OF nf(1)] num_add_ok by blast
  obtain v2 out where v2: "dict_get (JObj u) ''output_tokens'' (JNum 0) = Inr v2"
    and out: "num_add (n_output entry) v2 = Inr out"
    using number_field_get[OF nf(2)] num_add_ok by blast
  obtain v3 cr where v3: "dict_get (JObj u) ''cache_read_input_tokens'' (JNum 0) = Inr v3"
    and cr: "num_add (n_cache_read entry) v3 = Inr cr"
    using number_field_get[OF nf(3)] num_add_ok by blast
  obtain c5 c1 where cc: "add_cache_creation entry (JObj u) = Inr (c5, c1)"
    using add_cache_creation_ok[OF cd, of entry] by auto
  obtain content where co: "dict_get (JObj m) ''content'' (JArr []) = Inr content"
    by simp
  have "\<exists>calls. (case content of JArr blocks \<Rightarrow> collect_task_calls blocks | _ \<Rightarrow> Inr [])
          = Inr calls"
  proof (cases content)
    case (JArr blocks)
    then have "list_all task_block_ok blocks"
      using assms(1) co by (auto simp: assistant_message_ok_def split: option.splits)
    from collect_task_calls_ok[OF this] JArr show ?thesis by simp
  qed simp_all
  then obtain calls where
    calls: "(case content of JArr blocks \<Rightarrow> collect_task_calls blocks | _ \<Rightarrow> Inr []) = Inr calls"
    by blast
  show ?thesis
    unfolding process_assistant_def
    by (simp only: assms(2) u mo key ebind_Inr Let_def entry_def[symmetric] v1 i v2 out v3 cr cc
        co calls prod.case) simp
qed

lemma process_record_ok:
  assumes "record_ok d"
  shows "\<exists>st'. process_record st d = Inr st'"
proof -
  obtain kvs where d: "d = JObj kvs"
    using assms by (cases d) (auto simp: record_ok_def)
  let ?ty = "case map_of kvs ''type'' of Some v \<Rightarrow> v | None \<Rightarrow> JNull"
  let ?st1 = "note_timestamp st (case map_of kvs ''timestamp'' of Some v \<Rightarrow> v | None \<Rightarrow> JNull)"
  have user: "\<exists>st2. process_user ?st1 d = Inr st2" if tyu: "?ty = JStr ''user''"
  proof (cases "map_of kvs ''message''")
    case None
    then show ?thesis using process_user_no_message d by blast
  next
    case (Some msg)
    then obtain m where m: "msg = JObj m" "user_message_ok m"
      using assms tyu d by (auto simp: record_ok_def split: json.splits option.splits)
    then show ?thesis using process_user_ok[OF m(2), of kvs] Some d by auto
  qed
  have assistant: "\<exists>st3. process_assistant st2 d = Inr st3" if tya: "?ty = JStr ''assistant''" for st2
  proof (cases "map_of kvs ''message''")
    case None
    then have "dict_get (JObj kvs) ''message'' (JObj []) = Inr (JObj [])" by simp
    from process_assistant_ok[OF assistant_message_ok_empty this] d show ?thesis by simp
  next
    case (Some msg)
    then obtain m where m: "msg = JObj m" "assistant_message_ok m"
      using assms tya d by (auto simp: record_ok_def split: json.splits option.splits)
    have "dict_get (JObj kvs) ''message'' (JObj []) = Inr (JObj m)"
      using Some m(1) by simp
    from process_assistant_ok[OF m(2) this] d show ?thesis by simp
  qed
  show ?thesis
  proof (cases "?ty = JStr ''user''")
    case True
    then obtain st2 where "process_user ?st1 d = Inr st2" using user by blast
    then show ?thesis using True d by (simp add: process_record_def)
  next
    case False
    show ?thesis
    proof (cases "?ty = JStr ''assistant''")
      case True
      then obtain st3 where "process_assistant ?st1 d = Inr st3" using assistant by blast
      then show ?thesis using True False d by (simp add: process_record_def)
    next
      case False2: False
      then show ?thesis using False d by (simp add: process_record_def)
    qed
  qed
qed

lemma parse_lines_ok:
  assumes "\<forall>l \<in> set lines. \<forall>d. strip l \<noteq> [] \<and> loads (strip l) = Some d \<longrightarrow> record_ok d"
  shows "\<exists>res. parse_lines loads st lines = Inr res"
  using assms
proof (induction lines arbitrary: st)
  case Nil
  then show ?case by simp
next
  case (Cons l ls)
  then have ih: "\<exists>res. parse_lines loads st2 ls = Inr res" for st2 by simp
  show ?case
  proof (cases "strip l = [] \<or> loads (strip l) = None")
    case True
    then show ?thesis using ih[of st] parse_lines_skip[of l loads st ls] by simp
  next
    case False
    then obtain d where d: "strip l \<noteq> []" "loads (strip l) = Some d" by auto
    then have "record_ok d" using Cons.prems by simp
    then obtain st1 where "process_record st d = Inr st1"
      using process_record_ok by blast
    then show ?thesis using ih[of st1] d by simp
  qed
qed




section \<open>SessionAggregator: two assistant records and no sub-agent\<close>

lemma process_assistant_record:
  "process_record st (assistant_record m i out) =
     Inr (st\<lparr>tokens_by_model :=
               dict_set (tokens_by_model st) (JStr m)
                 \<lparr>n_input = n_input (counts_or_zero (tokens_by_model st) (JStr m)) + i,
                  n_output = n_output (counts_or_zero (tokens_by_model st) (JStr m)) + out,
                  n_cache_5m = n_cache_5m (counts_or_zero (tokens_by_model st) (JStr m)),
                  n_cache_1h = n_cache_1h (counts_or_zero (tokens_by_model st) (JStr m)),
                  n_cache_read = n_cache_read (counts_or_zero (tokens_by_model st) (JStr m)),
                  n_messages = n_messages (counts_or_zero (tokens_by_model st) (JStr m)) + 1\<rparr>,
             msg_count := msg_count st + 1\<rparr>)"
  by (simp add: process_record_def assistant_record_def process_assistant_def
      add_cache_creation_def note_timestamp_def counts_or_zero_def Let_def)

lemma parse_two_assistant_records:
  assumes "strip l1 \<noteq> []" "strip l2 \<noteq> []"
    "loads (strip l1) = Some (assistant_record m 1000 500)"
    "loads (strip l2) = Some (assistant_record m 1000 500)"
  shows "parse_jsonl loads [l1, l2] =
           Inr (initial_result
                  \<lparr>tokens_by_model :=
                     [(JStr m, zero_counts\<lparr>n_input := 2000, n_output := 1000, n_messages := 2\<rparr>)],
                   msg_count := 2\<rparr>)"
  using assms
  by (simp add: parse_jsonl_def process_assistant_record initial_result_def zero_counts_def
      counts_or_zero_def)





end
